theory Spec2Isabelle
  imports Main "HOL-Library.Word" "HOL-Library.AList"
begin

section \<open>Data model\<close>

text \<open>
  The proxy's processors (package \<open>process\<close>) are embedded as HOL functions.
  A Go \<open>error\<close> value is an element of the datatype \<open>error\<close>, and a possibly-nil
  error is an \<open>error option\<close> (\<open>None\<close> is \<open>nil\<close>).  The sentinel errors of the
  packages \<open>process\<close> and \<open>api/errors\<close> are constructors of their own; an error
  made by a collaborator (address codec, shard coordinator, observer inventory,
  forwarder) is \<open>ErrExternal\<close> with its message.  \<open>ErrInvalidTxFields\<close> keeps the
  two errors whose texts the Go struct stores as \<open>Message\<close> and \<open>Reason\<close>.
\<close>

datatype error =
    ErrSendingRequest
  | ErrMissingObserver
  | ErrNoValidTransactionToSend
  | ErrTransactionNotFound
  | ErrInvalidSenderAddress
  | ErrInvalidReceiverAddress
  | ErrInvalidSignatureHex
  | ErrInvalidTxFields error error
  | ErrExternal string

type_synonym shard = "32 word"
type_synonym byte = "8 word"

text \<open>\<open>data.Observer\<close>.\<close>

record Observer =
  Address :: string
  ShardId :: shard

text \<open>
  \<open>data.Transaction\<close>, the transaction a client submits.  \<open>Index\<close> is a Go \<open>int\<close>;
  the code only ever stores slice positions in it.
\<close>

record Transaction =
  Nonce :: "64 word"
  Value :: string
  Receiver :: string
  Sender :: string
  GasPrice :: "64 word"
  GasLimit :: "64 word"
  Data :: string
  Signature :: string
  Index :: int

text \<open>
  The reply types the forwarder decodes into.  Of \<open>transaction.ApiTransactionResult\<close>
  only the three fields the processor reads are kept (their names carry the prefix
  \<open>Tx\<close>, since \<open>Sender\<close> and \<open>Receiver\<close> are fields of \<open>Transaction\<close> already).
  The Go map \<open>TxsHashes\<close> is an association list: of a reply, in the order in which
  \<open>range\<close> happens to enumerate it; of the proxy's own answer, in the order of the
  assignments that made it (an assignment to a key already there replaces its value).
\<close>

record ApiTransactionResult =
  TxSender :: string
  TxReceiver :: string
  TxStatus :: string

record GetTransactionResponse =
  TransactionOf :: ApiTransactionResult

record ResponseTransaction =
  TxHash :: string

record ResponseTxCost =
  TxCost :: "64 word"

record ResponseMultipleTransactions =
  NumOfTxs :: "64 word"
  TxsHashes :: "(int \<times> string) list"

record Account =
  AccountAddress :: string
  AccountNonce :: "64 word"
  Balance :: string

record ResponseAccount =
  AccountData :: Account

text \<open>
  The collaborators of a processor: \<open>pubKeyConverter.Decode\<close>, \<open>hex.DecodeString\<close>,
  and the \<open>Processor\<close> interface (\<open>ComputeShardId\<close>, \<open>GetObservers\<close>,
  \<open>GetAllObservers\<close>, \<open>CallGetRestEndPoint\<close>, \<open>CallPostRestEndPoint\<close>).  None of them
  is part of the processors; each is a parameter.  The two \<open>Call...\<close> methods are
  generic in the value they decode into, so there is one field for each value type the
  processors use; each takes the observer's address and the path (and the posted body)
  and gives the response code, the error and the decoded value.  The forwarder is a
  function of the request: an observer that is asked the same thing twice during one
  call of a processor method gives the same reply twice.
\<close>

record env =
  Decode :: "string \<Rightarrow> error + byte list"
  HexDecodeString :: "string \<Rightarrow> error + byte list"
  ComputeShardId :: "byte list \<Rightarrow> error + shard"
  GetObservers :: "shard \<Rightarrow> error + Observer list"
  GetAllObservers :: "Observer list"
  CallGetTransaction :: "string \<Rightarrow> string \<Rightarrow> int \<times> error option \<times> GetTransactionResponse"
  CallGetAccount :: "string \<Rightarrow> string \<Rightarrow> int \<times> error option \<times> ResponseAccount"
  CallPostTransaction :: "string \<Rightarrow> string \<Rightarrow> Transaction \<Rightarrow> int \<times> error option \<times> ResponseTransaction"
  CallPostTxCost :: "string \<Rightarrow> string \<Rightarrow> Transaction \<Rightarrow> int \<times> error option \<times> ResponseTxCost"
  CallPostTransactions ::
    "string \<Rightarrow> string \<Rightarrow> Transaction list \<Rightarrow> int \<times> error option \<times> ResponseMultipleTransactions"

section \<open>Constants\<close>

definition TransactionPath :: string where
  "TransactionPath = ''/transaction/''"

definition TransactionSendPath :: string where
  "TransactionSendPath = ''/transaction/send''"

definition MultipleTransactionsPath :: string where
  "MultipleTransactionsPath = ''/transaction/send-multiple''"

definition TransactionCostPath :: string where
  "TransactionCostPath = ''/transaction/cost''"

definition UnknownStatusTx :: string where
  "UnknownStatusTx = ''unknown''"

definition AddressPath :: string where
  "AddressPath = ''/address/''"

text \<open>The status codes of \<open>net/http\<close> the processors name.\<close>

definition StatusOK :: int where "StatusOK = 200"
definition StatusBadRequest :: int where "StatusBadRequest = 400"
definition StatusNotFound :: int where "StatusNotFound = 404"
definition StatusRequestTimeout :: int where "StatusRequestTimeout = 408"
definition StatusInternalServerError :: int where "StatusInternalServerError = 500"

text \<open>\<open>core.MetachainShardId\<close>, the largest \<open>uint32\<close>.\<close>

definition MetachainShardId :: shard where
  "MetachainShardId = 0xFFFFFFFF"

section \<open>Decimal rendering\<close>

text \<open>
  \<open>fmt.Sprintf("%d", n)\<close> for an unsigned \<open>n\<close>, and \<open>strconv.Itoa\<close> for a signed one.
\<close>

definition digit_char :: "nat \<Rightarrow> char" where
  "digit_char d = ''0123456789'' ! d"

fun FormatUint :: "nat \<Rightarrow> string" where
  "FormatUint n =
     (if n < 10 then [digit_char n] else FormatUint (n div 10) @ [digit_char (n mod 10)])"

declare FormatUint.simps [simp del]

definition Itoa :: "int \<Rightarrow> string" where
  "Itoa i = (if i < 0 then CHR ''-'' # FormatUint (nat (- i)) else FormatUint (nat i))"

section \<open>Transaction processor: shard resolution\<close>

text \<open>
  \<open>getShardByAddress\<close>: the decimal text of the metachain id stands for the metachain;
  any other string is decoded as an address and its shard computed.
\<close>

definition getShardByAddress :: "env \<Rightarrow> string \<Rightarrow> error + shard" where
  "getShardByAddress e address =
     (if address \<noteq> FormatUint (unat MetachainShardId) then
        (case Decode e address of
           Inl err \<Rightarrow> Inl err
         | Inr senderBuff \<Rightarrow>
             (case ComputeShardId e senderBuff of
                Inl err \<Rightarrow> Inl err
              | Inr shardID \<Rightarrow> Inr shardID))
      else Inr MetachainShardId)"

text \<open>
  Where a caller drops the error (\<open>shardID, _ := tp.getShardByAddress(...)\<close>) it goes
  on with the number returned beside the error, which is \<open>0\<close>.
\<close>

definition shardIgnoringError :: "error + shard \<Rightarrow> shard" where
  "shardIgnoringError r = (case r of Inl err \<Rightarrow> 0 | Inr shardID \<Rightarrow> shardID)"

section \<open>Transaction processor: field validation\<close>

definition checkTransactionFields :: "env \<Rightarrow> Transaction \<Rightarrow> error option" where
  "checkTransactionFields e tx =
     (case Decode e (Sender tx) of
        Inl err \<Rightarrow> Some (ErrInvalidTxFields ErrInvalidSenderAddress err)
      | Inr _ \<Rightarrow>
          (case Decode e (Receiver tx) of
             Inl err \<Rightarrow> Some (ErrInvalidTxFields ErrInvalidReceiverAddress err)
           | Inr _ \<Rightarrow>
               (case HexDecodeString e (Signature tx) of
                  Inl err \<Rightarrow> Some (ErrInvalidTxFields ErrInvalidSignatureHex err)
                | Inr _ \<Rightarrow> None)))"

section \<open>Transaction processor: SendTransaction\<close>

text \<open>
  The operations whose claims speak of which observers are contacted return, beside
  their result, the observers a request was sent to, in the order of the requests.
\<close>

fun SendTransaction_loop ::
  "env \<Rightarrow> Transaction \<Rightarrow> Observer list \<Rightarrow> (int \<times> string \<times> error option) \<times> Observer list"
where
  "SendTransaction_loop e tx [] =
     ((StatusInternalServerError, '''', Some ErrSendingRequest), [])"
| "SendTransaction_loop e tx (observer # rest) =
     (case CallPostTransaction e (Address observer) TransactionSendPath tx of
        (respCode, err, txResponse) \<Rightarrow>
          if respCode = StatusOK \<and> err = None then
            ((respCode, TxHash txResponse, None), [observer])
          else if respCode = StatusNotFound \<or> respCode = StatusRequestTimeout then
            (case SendTransaction_loop e tx rest of
               (r, called) \<Rightarrow> (r, observer # called))
          else ((respCode, '''', err), [observer]))"

definition SendTransaction ::
  "env \<Rightarrow> Transaction \<Rightarrow> (int \<times> string \<times> error option) \<times> Observer list"
where
  "SendTransaction e tx =
     (case checkTransactionFields e tx of
        Some err \<Rightarrow> ((StatusBadRequest, '''', Some err), [])
      | None \<Rightarrow>
          (case Decode e (Sender tx) of
             Inl err \<Rightarrow> ((StatusBadRequest, '''', Some err), [])
           | Inr senderBuff \<Rightarrow>
               (case ComputeShardId e senderBuff of
                  Inl err \<Rightarrow> ((StatusInternalServerError, '''', Some err), [])
                | Inr shardID \<Rightarrow>
                    (case GetObservers e shardID of
                       Inl err \<Rightarrow> ((StatusInternalServerError, '''', Some err), [])
                     | Inr observers \<Rightarrow> SendTransaction_loop e tx observers))))"

section \<open>Transaction processor: TransactionCostRequest\<close>

text \<open>
  \<open>strconv.Itoa(int(txCostResponse.TxCost))\<close>: the \<open>uint64\<close> is converted to the
  \<open>int\<close> of the same bits (64 bits wide, as on the platforms the proxy is built for),
  which is then written in decimal.
\<close>

fun TransactionCostRequest_loop ::
  "env \<Rightarrow> Transaction \<Rightarrow> Observer list \<Rightarrow> (string \<times> error option) \<times> Observer list"
where
  "TransactionCostRequest_loop e tx [] = (('''', Some ErrSendingRequest), [])"
| "TransactionCostRequest_loop e tx (observer # rest) =
     (if ShardId observer = MetachainShardId then TransactionCostRequest_loop e tx rest
      else
        (case CallPostTxCost e (Address observer) TransactionCostPath tx of
           (respCode, err, txCostResponse) \<Rightarrow>
             if respCode = StatusOK \<and> err = None then
               ((Itoa (sint (TxCost txCostResponse)), None), [observer])
             else if respCode = StatusNotFound \<or> respCode = StatusRequestTimeout then
               (case TransactionCostRequest_loop e tx rest of
                  (r, called) \<Rightarrow> (r, observer # called))
             else (('''', err), [observer])))"

definition TransactionCostRequest ::
  "env \<Rightarrow> Transaction \<Rightarrow> (string \<times> error option) \<times> Observer list"
where
  "TransactionCostRequest e tx =
     (case checkTransactionFields e tx of
        Some err \<Rightarrow> (('''', Some err), [])
      | None \<Rightarrow> TransactionCostRequest_loop e tx (GetAllObservers e))"

section \<open>Transaction processor: GetTransaction\<close>

text \<open>
  \<open>err\<close> is declared before the loop and assigned by every call; after the loop the
  function returns whatever the last call left in it.
\<close>

fun GetTransaction_loop ::
  "env \<Rightarrow> string \<Rightarrow> error option \<Rightarrow> Observer list \<Rightarrow> ApiTransactionResult option \<times> error option"
where
  "GetTransaction_loop e txHash err [] = (None, err)"
| "GetTransaction_loop e txHash err (observer # rest) =
     (case CallGetTransaction e (Address observer) (TransactionPath @ txHash) of
        (respCode, err', getTxResponse) \<Rightarrow>
          if respCode \<noteq> StatusOK then GetTransaction_loop e txHash err' rest
          else if err' \<noteq> None then GetTransaction_loop e txHash err' rest
          else (Some (TransactionOf getTxResponse), None))"

definition GetTransaction ::
  "env \<Rightarrow> string \<Rightarrow> ApiTransactionResult option \<times> error option"
where
  "GetTransaction e txHash = GetTransaction_loop e txHash None (GetAllObservers e)"

fun GetTransactionByHashAndSenderAddress_loop ::
  "env \<Rightarrow> string \<Rightarrow> Observer list \<Rightarrow> ApiTransactionResult option \<times> int \<times> error option"
where
  "GetTransactionByHashAndSenderAddress_loop e txHash [] =
     (None, StatusNotFound, Some ErrTransactionNotFound)"
| "GetTransactionByHashAndSenderAddress_loop e txHash (observer # rest) =
     (case CallGetTransaction e (Address observer) (TransactionPath @ txHash) of
        (respCode, err, getTxResponse) \<Rightarrow>
          if respCode \<noteq> StatusOK then GetTransactionByHashAndSenderAddress_loop e txHash rest
          else if err \<noteq> None then GetTransactionByHashAndSenderAddress_loop e txHash rest
          else (Some (TransactionOf getTxResponse), StatusOK, None))"

definition GetTransactionByHashAndSenderAddress ::
  "env \<Rightarrow> string \<Rightarrow> string \<Rightarrow> ApiTransactionResult option \<times> int \<times> error option"
where
  "GetTransactionByHashAndSenderAddress e txHash sndAddr =
     (case getShardByAddress e sndAddr of
        Inl err \<Rightarrow> (None, StatusBadRequest, Some ErrInvalidSenderAddress)
      | Inr shardID \<Rightarrow>
          (case GetObservers e shardID of
             Inl err \<Rightarrow> (None, StatusInternalServerError, Some err)
           | Inr observers \<Rightarrow> GetTransactionByHashAndSenderAddress_loop e txHash observers))"

section \<open>Transaction processor: GetTransactionStatus\<close>

definition getTxFromObserver :: "env \<Rightarrow> Observer \<Rightarrow> string \<Rightarrow> GetTransactionResponse option" where
  "getTxFromObserver e observer txHash =
     (case CallGetTransaction e (Address observer) (TransactionPath @ txHash) of
        (respCode, err, getTxResponse) \<Rightarrow>
          if err \<noteq> None then None
          else if respCode \<noteq> StatusOK then None
          else Some getTxResponse)"

fun getTxStatusFromDestShard_loop :: "env \<Rightarrow> string \<Rightarrow> Observer list \<Rightarrow> string \<times> bool" where
  "getTxStatusFromDestShard_loop e txHash [] = ('''', False)"
| "getTxStatusFromDestShard_loop e txHash (dstObserver # rest) =
     (case CallGetTransaction e (Address dstObserver) (TransactionPath @ txHash) of
        (respCode, err, getTxResponseDst) \<Rightarrow>
          if err \<noteq> None then getTxStatusFromDestShard_loop e txHash rest
          else if respCode \<noteq> StatusOK then getTxStatusFromDestShard_loop e txHash rest
          else (TxStatus (TransactionOf getTxResponseDst), True))"

definition getTxStatusFromDestShard :: "env \<Rightarrow> string \<Rightarrow> shard \<Rightarrow> string \<times> bool" where
  "getTxStatusFromDestShard e txHash dstShardID =
     (case GetObservers e dstShardID of
        Inl err \<Rightarrow> ('''', False)
      | Inr destinationShardObservers \<Rightarrow>
          getTxStatusFromDestShard_loop e txHash destinationShardObservers)"

fun getTxStatusWithSenderAddr_loop ::
  "env \<Rightarrow> string \<Rightarrow> shard \<Rightarrow> Observer list \<Rightarrow> string \<times> error option"
where
  "getTxStatusWithSenderAddr_loop e txHash sndShardID [] =
     (UnknownStatusTx, Some ErrTransactionNotFound)"
| "getTxStatusWithSenderAddr_loop e txHash sndShardID (observer # rest) =
     (case getTxFromObserver e observer txHash of
        None \<Rightarrow> getTxStatusWithSenderAddr_loop e txHash sndShardID rest
      | Some getTxResponse \<Rightarrow>
          (let rcvShardID =
                 shardIgnoringError
                   (getShardByAddress e (TxReceiver (TransactionOf getTxResponse)));
               isIntraShard = (rcvShardID = sndShardID)
           in if isIntraShard then (TxStatus (TransactionOf getTxResponse), None)
              else
                (case getTxStatusFromDestShard e txHash rcvShardID of
                   (dstTxStatus, ok) \<Rightarrow>
                     if ok then (dstTxStatus, None)
                     else (TxStatus (TransactionOf getTxResponse), None))))"

definition getTxStatusWithSenderAddr :: "env \<Rightarrow> string \<Rightarrow> string \<Rightarrow> string \<times> error option" where
  "getTxStatusWithSenderAddr e txHash sender =
     (case getShardByAddress e sender of
        Inl err \<Rightarrow> (UnknownStatusTx, Some ErrInvalidSenderAddress)
      | Inr sndShardID \<Rightarrow>
          (case GetObservers e sndShardID of
             Inl err \<Rightarrow> (UnknownStatusTx, Some err)
           | Inr observers \<Rightarrow> getTxStatusWithSenderAddr_loop e txHash sndShardID observers))"

fun GetTransactionStatus_loop :: "env \<Rightarrow> string \<Rightarrow> Observer list \<Rightarrow> string \<times> error option" where
  "GetTransactionStatus_loop e txHash [] = (UnknownStatusTx, Some ErrTransactionNotFound)"
| "GetTransactionStatus_loop e txHash (observer # rest) =
     (case getTxFromObserver e observer txHash of
        None \<Rightarrow> GetTransactionStatus_loop e txHash rest
      | Some getTxResponse \<Rightarrow>
          (let sndShardID =
                 shardIgnoringError
                   (getShardByAddress e (TxSender (TransactionOf getTxResponse)));
               rcvShardID =
                 shardIgnoringError
                   (getShardByAddress e (TxReceiver (TransactionOf getTxResponse)));
               isIntraShard = (sndShardID = rcvShardID);
               observerIsInDestShard = (rcvShardID = ShardId observer)
           in if isIntraShard \<or> observerIsInDestShard then
                (TxStatus (TransactionOf getTxResponse), None)
              else
                (case getTxStatusFromDestShard e txHash rcvShardID of
                   (dstTxStatus, ok) \<Rightarrow>
                     if ok then (dstTxStatus, None)
                     else (TxStatus (TransactionOf getTxResponse), None))))"

definition GetTransactionStatus :: "env \<Rightarrow> string \<Rightarrow> string \<Rightarrow> string \<times> error option" where
  "GetTransactionStatus e txHash sender =
     (if sender \<noteq> '''' then getTxStatusWithSenderAddr e txHash sender
      else GetTransactionStatus_loop e txHash (GetAllObservers e))"

section \<open>Transaction processor: SendMultipleTransactions\<close>

text \<open>
  The input is a slice of pointers.  A pointer is a reference \<open>ref\<close> into a store of
  transaction objects owned by the caller (no element of the slice is \<open>nil\<close>); the
  same reference may occur more than once in a slice.  \<open>groupTxsByShard\<close> writes
  \<open>Index\<close> through the pointer, so it returns the store it leaves behind.

  The Go map \<open>txsByShardID\<close> is an association list with one entry for each key, in
  the order in which the keys were first assigned.
\<close>

type_synonym ref = nat
type_synonym store = "ref \<Rightarrow> Transaction"
type_synonym txsMap = "(shard \<times> ref list) list"

text \<open>\<open>txsMap[senderShardID] = append(txsMap[senderShardID], tx)\<close>.\<close>

fun appendTx :: "txsMap \<Rightarrow> shard \<Rightarrow> ref \<Rightarrow> txsMap" where
  "appendTx [] shardID tx = [(shardID, [tx])]"
| "appendTx ((s, groupOfTxs) # m) shardID tx =
     (if s = shardID then (s, groupOfTxs @ [tx]) # m
      else (s, groupOfTxs) # appendTx m shardID tx)"

fun groupTxsByShard_loop ::
  "env \<Rightarrow> int \<Rightarrow> ref list \<Rightarrow> txsMap \<times> store \<Rightarrow> txsMap \<times> store"
where
  "groupTxsByShard_loop e idx [] (txsMap, st) = (txsMap, st)"
| "groupTxsByShard_loop e idx (tx # rest) (txsMap, st) =
     (case Decode e (Sender (st tx)) of
        Inl err \<Rightarrow> groupTxsByShard_loop e (idx + 1) rest (txsMap, st)
      | Inr senderBytes \<Rightarrow>
          (case ComputeShardId e senderBytes of
             Inl err \<Rightarrow> groupTxsByShard_loop e (idx + 1) rest (txsMap, st)
           | Inr senderShardID \<Rightarrow>
               groupTxsByShard_loop e (idx + 1) rest
                 (appendTx txsMap senderShardID tx, st(tx := (st tx)\<lparr>Index := idx\<rparr>))))"

definition groupTxsByShard :: "env \<Rightarrow> ref list \<Rightarrow> store \<Rightarrow> txsMap \<times> store" where
  "groupTxsByShard e txs st = groupTxsByShard_loop e 0 txs ([], st)"

text \<open>
  A function that panics (here: \<open>groupOfTxs[key]\<close> with \<open>key\<close> out of range) does not
  return.
\<close>

datatype 'a result = Panic | Return 'a

text \<open>
  \<open>for key, hash := range txResponse.TxsHashes { txsHashes[groupOfTxs[key].Index] = hash }\<close>
\<close>

fun mergeTxsHashes ::
  "store \<Rightarrow> ref list \<Rightarrow> (int \<times> string) list \<Rightarrow> (int \<times> string) list \<Rightarrow> (int \<times> string) list result"
where
  "mergeTxsHashes st groupOfTxs [] txsHashes = Return txsHashes"
| "mergeTxsHashes st groupOfTxs ((key, hash) # rest) txsHashes =
     (if 0 \<le> key \<and> key < int (length groupOfTxs) then
        mergeTxsHashes st groupOfTxs rest
          (AList.update (Index (st (groupOfTxs ! nat key))) hash txsHashes)
      else Panic)"

text \<open>
  The inner loop, over the observers of one shard; the state is the pair of
  \<open>totalTxsSent\<close> and \<open>txsHashes\<close>.  The posted body is the group, read through
  the pointers.
\<close>

fun SendMultipleTransactions_observers ::
  "env \<Rightarrow> store \<Rightarrow> ref list \<Rightarrow> Observer list \<Rightarrow> 64 word \<times> (int \<times> string) list
     \<Rightarrow> (64 word \<times> (int \<times> string) list) result"
where
  "SendMultipleTransactions_observers e st groupOfTxs [] (totalTxsSent, txsHashes) =
     Return (totalTxsSent, txsHashes)"
| "SendMultipleTransactions_observers e st groupOfTxs (observer # rest) (totalTxsSent, txsHashes) =
     (case CallPostTransactions e (Address observer) MultipleTransactionsPath (map st groupOfTxs) of
        (respCode, err, txResponse) \<Rightarrow>
          if respCode = StatusOK \<and> err = None then
            (case mergeTxsHashes st groupOfTxs (TxsHashes txResponse) txsHashes of
               Panic \<Rightarrow> Panic
             | Return txsHashes' \<Rightarrow> Return (totalTxsSent + NumOfTxs txResponse, txsHashes'))
          else SendMultipleTransactions_observers e st groupOfTxs rest (totalTxsSent, txsHashes))"

text \<open>The outer loop, over the groups in the order given.\<close>

fun SendMultipleTransactions_groups ::
  "env \<Rightarrow> store \<Rightarrow> txsMap \<Rightarrow> 64 word \<times> (int \<times> string) list
     \<Rightarrow> (ResponseMultipleTransactions \<times> error option) result"
where
  "SendMultipleTransactions_groups e st [] (totalTxsSent, txsHashes) =
     Return (\<lparr>NumOfTxs = totalTxsSent, TxsHashes = txsHashes\<rparr>, None)"
| "SendMultipleTransactions_groups e st ((shardID, groupOfTxs) # rest) (totalTxsSent, txsHashes) =
     (case GetObservers e shardID of
        Inl err \<Rightarrow> Return (\<lparr>NumOfTxs = 0, TxsHashes = []\<rparr>, Some ErrMissingObserver)
      | Inr observersInShard \<Rightarrow>
          (case SendMultipleTransactions_observers e st groupOfTxs observersInShard
                  (totalTxsSent, txsHashes) of
             Panic \<Rightarrow> Panic
           | Return acc \<Rightarrow> SendMultipleTransactions_groups e st rest acc))"

text \<open>
  Go does not fix the order in which \<open>range\<close> enumerates a map.  The order of the
  groups is therefore a parameter: \<open>rangeOrder\<close> ranks the shard ids, and the groups
  are visited by increasing rank (every order of the groups is that of some ranking,
  see \<open>visitOrder_any_order\<close> below).
  The result is what the call returns, or \<open>Panic\<close>, together with the caller's store as
  the call leaves it.
\<close>

definition SendMultipleTransactions ::
  "env \<Rightarrow> (shard \<Rightarrow> nat) \<Rightarrow> ref list \<Rightarrow> store
     \<Rightarrow> (ResponseMultipleTransactions \<times> error option) result \<times> store"
where
  "SendMultipleTransactions e rangeOrder txs st =
     (let txsToSend = filter (\<lambda>currentTx. checkTransactionFields e (st currentTx) = None) txs
      in if length txsToSend = 0 then
           (Return (\<lparr>NumOfTxs = 0, TxsHashes = []\<rparr>, Some ErrNoValidTransactionToSend), st)
         else
           (case groupTxsByShard e txsToSend st of
              (txsByShardID, st') \<Rightarrow>
                (SendMultipleTransactions_groups e st'
                   (sort_key (\<lambda>(shardID, groupOfTxs). rangeOrder shardID) txsByShardID) (0, []),
                 st')))"

section \<open>Account processor: GetAccount\<close>

definition getObserversForAddress :: "env \<Rightarrow> string \<Rightarrow> error + Observer list" where
  "getObserversForAddress e address =
     (case Decode e address of
        Inl err \<Rightarrow> Inl err
      | Inr addressBytes \<Rightarrow>
          (case ComputeShardId e addressBytes of
             Inl err \<Rightarrow> Inl err
           | Inr shardID \<Rightarrow>
               (case GetObservers e shardID of
                  Inl err \<Rightarrow> Inl err
                | Inr observers \<Rightarrow> Inr observers)))"

fun GetAccount_loop ::
  "env \<Rightarrow> string \<Rightarrow> Observer list \<Rightarrow> (Account option \<times> error option) \<times> Observer list"
where
  "GetAccount_loop e address [] = ((None, Some ErrSendingRequest), [])"
| "GetAccount_loop e address (observer # rest) =
     (case CallGetAccount e (Address observer) (AddressPath @ address) of
        (respCode, err, responseAccount) \<Rightarrow>
          if err = None then ((Some (AccountData responseAccount), None), [observer])
          else
            (case GetAccount_loop e address rest of
               (r, called) \<Rightarrow> (r, observer # called)))"

definition GetAccount ::
  "env \<Rightarrow> string \<Rightarrow> (Account option \<times> error option) \<times> Observer list"
where
  "GetAccount e address =
     (case getObserversForAddress e address of
        Inl err \<Rightarrow> ((None, Some err), [])
      | Inr observers \<Rightarrow> GetAccount_loop e address observers)"

section \<open>Vocabulary of the properties\<close>

text \<open>
  The definitions of this section are not code of the proxy: they name what the
  properties below speak about.

  An observer \<^emph>\<open>answers\<close> the request for a transaction when its reply has code 200
  and no error; \<open>answerOf\<close> is the transaction it then reports.  The \<^emph>\<open>candidates\<close> of a
  status request are the observers of the sender's shard when a sender is given, and
  all observers otherwise (none, if the sender's shard or its observers cannot be
  found).  \<open>destinationAnswer\<close> is the first observer of a shard that answers.
\<close>

definition answered :: "env \<Rightarrow> string \<Rightarrow> Observer \<Rightarrow> bool" where
  "answered e txHash observer =
     (case CallGetTransaction e (Address observer) (TransactionPath @ txHash) of
        (respCode, err, getTxResponse) \<Rightarrow> respCode = StatusOK \<and> err = None)"

definition answerOf :: "env \<Rightarrow> string \<Rightarrow> Observer \<Rightarrow> ApiTransactionResult" where
  "answerOf e txHash observer =
     (case CallGetTransaction e (Address observer) (TransactionPath @ txHash) of
        (respCode, err, getTxResponse) \<Rightarrow> TransactionOf getTxResponse)"

definition candidates :: "env \<Rightarrow> string \<Rightarrow> Observer list" where
  "candidates e sender =
     (if sender = '''' then GetAllObservers e
      else
        (case getShardByAddress e sender of
           Inl err \<Rightarrow> []
         | Inr sndShardID \<Rightarrow>
             (case GetObservers e sndShardID of Inl err \<Rightarrow> [] | Inr observers \<Rightarrow> observers)))"

definition destinationAnswer :: "env \<Rightarrow> string \<Rightarrow> shard \<Rightarrow> Observer option" where
  "destinationAnswer e txHash dstShardID =
     (case GetObservers e dstShardID of
        Inl err \<Rightarrow> None
      | Inr observers \<Rightarrow> find (answered e txHash) observers)"

definition senderShard :: "env \<Rightarrow> string \<Rightarrow> ApiTransactionResult \<Rightarrow> shard" where
  "senderShard e sender tx =
     shardIgnoringError (getShardByAddress e (if sender = '''' then TxSender tx else sender))"

definition receiverShard :: "env \<Rightarrow> ApiTransactionResult \<Rightarrow> shard" where
  "receiverShard e tx = shardIgnoringError (getShardByAddress e (TxReceiver tx))"

text \<open>
  The three outcomes of one call in the traversal pattern: code 200 without error is a
  success, code 404 or 408 says "try the next observer", everything else ends the
  traversal.
\<close>

datatype outcome = Success | Skip | Fatal

definition classify :: "int \<times> error option \<times> 'a \<Rightarrow> outcome" where
  "classify r =
     (if fst r = 200 \<and> fst (snd r) = None then Success
      else if fst r = 404 \<or> fst r = 408 then Skip
      else Fatal)"

definition sendOutcome :: "env \<Rightarrow> Transaction \<Rightarrow> Observer \<Rightarrow> int \<times> error option \<times> ResponseTransaction" where
  "sendOutcome e tx observer = CallPostTransaction e (Address observer) TransactionSendPath tx"

definition costOutcome :: "env \<Rightarrow> Transaction \<Rightarrow> Observer \<Rightarrow> int \<times> error option \<times> ResponseTxCost" where
  "costOutcome e tx observer = CallPostTxCost e (Address observer) TransactionCostPath tx"

text \<open>The observers \<open>TransactionCostRequest\<close> may post to.\<close>

definition notMetachain :: "Observer \<Rightarrow> bool" where
  "notMetachain ob = (ShardId ob \<noteq> MetachainShardId)"

text \<open>The error and the account of an observer's reply to \<open>GetAccount\<close>'s request.\<close>

definition accountError :: "env \<Rightarrow> string \<Rightarrow> Observer \<Rightarrow> error option" where
  "accountError e address ob = fst (snd (CallGetAccount e (Address ob) (AddressPath @ address)))"

definition accountOf :: "env \<Rightarrow> string \<Rightarrow> Observer \<Rightarrow> Account" where
  "accountOf e address ob =
     AccountData (snd (snd (CallGetAccount e (Address ob) (AddressPath @ address))))"

section \<open>An example inventory\<close>

text \<open>
  A network of two shards and the metachain: observers \<open>a\<close>, \<open>b\<close>, \<open>c\<close> in shard 0,
  \<open>x\<close>, \<open>y\<close> in shard 1, \<open>m\<close> in the metachain; the address \<open>erd1alice\<close> lives in
  shard 0 and \<open>erd1bob\<close> in shard 1.  In \<open>demoEnv\<close> every observer is down (404 with an
  error); the other environments change the replies of single observers.
\<close>

definition obsA :: Observer where "obsA = \<lparr>Address = ''http://a'', ShardId = 0\<rparr>"
definition obsB :: Observer where "obsB = \<lparr>Address = ''http://b'', ShardId = 0\<rparr>"
definition obsC :: Observer where "obsC = \<lparr>Address = ''http://c'', ShardId = 0\<rparr>"
definition obsX :: Observer where "obsX = \<lparr>Address = ''http://x'', ShardId = 1\<rparr>"
definition obsY :: Observer where "obsY = \<lparr>Address = ''http://y'', ShardId = 1\<rparr>"
definition obsM :: Observer where "obsM = \<lparr>Address = ''http://m'', ShardId = MetachainShardId\<rparr>"

definition demoDecode :: "string \<Rightarrow> error + byte list" where
  "demoDecode a =
     (if a = ''erd1alice'' then Inr [0]
      else if a = ''erd1bob'' then Inr [1]
      else Inl (ErrExternal ''invalid address''))"

definition demoHexDecodeString :: "string \<Rightarrow> error + byte list" where
  "demoHexDecodeString s = (if s = ''aa'' then Inr [170] else Inl (ErrExternal ''invalid hex''))"

definition demoComputeShardId :: "byte list \<Rightarrow> error + shard" where
  "demoComputeShardId b =
     (if b = [0] then Inr 0 else if b = [1] then Inr 1 else Inl (ErrExternal ''bad address''))"

definition demoGetObservers :: "shard \<Rightarrow> error + Observer list" where
  "demoGetObservers s =
     (if s = 0 then Inr [obsA, obsB, obsC]
      else if s = 1 then Inr [obsX, obsY]
      else if s = MetachainShardId then Inr [obsM]
      else Inl ErrMissingObserver)"

definition noTransaction :: GetTransactionResponse where
  "noTransaction = \<lparr>TransactionOf = \<lparr>TxSender = '''', TxReceiver = '''', TxStatus = ''''\<rparr>\<rparr>"

definition noAccount :: ResponseAccount where
  "noAccount = \<lparr>AccountData = \<lparr>AccountAddress = '''', AccountNonce = 0, Balance = ''''\<rparr>\<rparr>"

definition notFound :: "error option" where
  "notFound = Some (ErrExternal ''not found'')"

definition demoEnv :: env where
  "demoEnv =
     \<lparr>Decode = demoDecode,
      HexDecodeString = demoHexDecodeString,
      ComputeShardId = demoComputeShardId,
      GetObservers = demoGetObservers,
      GetAllObservers = [obsM, obsA, obsB, obsC, obsX, obsY],
      CallGetTransaction = (\<lambda>address path. (404, notFound, noTransaction)),
      CallGetAccount = (\<lambda>address path. (404, notFound, noAccount)),
      CallPostTransaction = (\<lambda>address path tx. (404, notFound, \<lparr>TxHash = ''''\<rparr>)),
      CallPostTxCost = (\<lambda>address path tx. (404, notFound, \<lparr>TxCost = 0\<rparr>)),
      CallPostTransactions =
        (\<lambda>address path txs. (404, notFound, \<lparr>NumOfTxs = 0, TxsHashes = []\<rparr>))\<rparr>"

definition crossShardTx :: "string \<Rightarrow> GetTransactionResponse" where
  "crossShardTx status =
     \<lparr>TransactionOf = \<lparr>TxSender = ''erd1alice'', TxReceiver = ''erd1bob'', TxStatus = status\<rparr>\<rparr>"

definition overrideEnv :: env where
  "overrideEnv = demoEnv\<lparr>
     GetAllObservers := [obsA, obsB, obsC, obsX, obsY],
     CallGetTransaction := (\<lambda>address path.
       if address = ''http://a'' \<and> path = ''/transaction/h'' then (200, None, crossShardTx ''pending'')
       else if address = ''http://y'' \<and> path = ''/transaction/h'' then (200, None, crossShardTx ''success'')
       else (404, notFound, noTransaction))\<rparr>"

definition fallbackEnv :: env where
  "fallbackEnv = demoEnv\<lparr>
     CallGetTransaction := (\<lambda>address path.
       if address = ''http://b'' \<and> path = ''/transaction/h'' then (200, None, crossShardTx ''pending'')
       else (404, notFound, noTransaction))\<rparr>"

definition demoTx :: Transaction where
  "demoTx =
     \<lparr>Nonce = 1, Value = ''10'', Receiver = ''erd1bob'', Sender = ''erd1alice'',
      GasPrice = 1, GasLimit = 50000, Data = '''', Signature = ''aa'', Index = 0\<rparr>"

definition sendEnv :: env where
  "sendEnv = demoEnv\<lparr>
     CallPostTransaction := (\<lambda>address path tx.
       if address = ''http://a'' then (408, Some (ErrExternal ''timeout''), \<lparr>TxHash = ''''\<rparr>)
       else if address = ''http://b'' \<and> path = ''/transaction/send'' then
         (200, None, \<lparr>TxHash = ''abc''\<rparr>)
       else (404, notFound, \<lparr>TxHash = ''''\<rparr>))\<rparr>"

definition costEnv :: env where
  "costEnv = demoEnv\<lparr>
     CallPostTxCost := (\<lambda>address path tx.
       if address = ''http://b'' \<and> path = ''/transaction/cost'' then
         (200, None, \<lparr>TxCost = 50000\<rparr>)
       else (404, notFound, \<lparr>TxCost = 0\<rparr>))\<rparr>"

definition boomEnv :: env where
  "boomEnv = demoEnv\<lparr>
     CallGetAccount := (\<lambda>address path.
       if address = ''http://a'' then (500, Some (ErrExternal ''boom''), noAccount)
       else if address = ''http://b'' \<and> path = ''/address/erd1alice'' then
         (200, None,
          \<lparr>AccountData = \<lparr>AccountAddress = ''erd1alice'', AccountNonce = 3, Balance = ''7''\<rparr>\<rparr>)
       else (404, notFound, noAccount))\<rparr>"

definition plain404Env :: env where
  "plain404Env = demoEnv\<lparr>
     GetAllObservers := [obsA],
     CallGetTransaction := (\<lambda>address path. (404, None, noTransaction))\<rparr>"

definition emptyInventoryEnv :: env where
  "emptyInventoryEnv = demoEnv\<lparr>GetAllObservers := []\<rparr>"

section \<open>Vocabulary of the properties of bulk sending\<close>

text \<open>
  \<open>senderShardOf\<close> is the shard \<open>groupTxsByShard\<close> finds for a sender (none when the sender
  does not decode or its shard cannot be computed).  \<open>txsToSend\<close> is the slice of the
  transactions that pass validation, \<open>txsByShardID\<close> the groups made of it, and
  \<open>storeAfter\<close> the caller's store once the groups are made.  \<open>visitOrder\<close> is the
  order in which the groups are visited.
\<close>

definition senderShardOf :: "env \<Rightarrow> string \<Rightarrow> shard option" where
  "senderShardOf e sender =
     (case Decode e sender of
        Inl err \<Rightarrow> None
      | Inr senderBytes \<Rightarrow>
          (case ComputeShardId e senderBytes of Inl err \<Rightarrow> None | Inr shardID \<Rightarrow> Some shardID))"

definition txsToSend :: "env \<Rightarrow> store \<Rightarrow> ref list \<Rightarrow> ref list" where
  "txsToSend e st txs = filter (\<lambda>tx. checkTransactionFields e (st tx) = None) txs"

definition lookupGroup :: "txsMap \<Rightarrow> shard \<Rightarrow> ref list" where
  "lookupGroup m shardID = (case map_of m shardID of None \<Rightarrow> [] | Some groupOfTxs \<Rightarrow> groupOfTxs)"

definition storeAfter :: "env \<Rightarrow> ref list \<Rightarrow> store \<Rightarrow> store" where
  "storeAfter e txs st =
     (if txsToSend e st txs = [] then st else snd (groupTxsByShard e (txsToSend e st txs) st))"

definition txsByShardID :: "env \<Rightarrow> ref list \<Rightarrow> store \<Rightarrow> txsMap" where
  "txsByShardID e txs st = fst (groupTxsByShard e (txsToSend e st txs) st)"

definition visitOrder :: "(shard \<Rightarrow> nat) \<Rightarrow> txsMap \<Rightarrow> txsMap" where
  "visitOrder rangeOrder m = sort_key (\<lambda>(shardID, groupOfTxs). rangeOrder shardID) m"

text \<open>
  \<open>rankIn ys\<close> ranks a shard id by the place of its group in the list \<open>ys\<close>.
\<close>

definition rankIn :: "txsMap \<Rightarrow> shard \<Rightarrow> nat" where
  "rankIn ys shardID = length (takeWhile (\<lambda>sg. fst sg \<noteq> shardID) ys)"

text \<open>
  The reply to a group is the reply of the first observer of its shard that accepts
  the post (code 200, no error); there is none when no observer accepts it.  A reply is
  in range when its keys are positions in the posted group.  \<open>mergeGroup\<close> writes the
  hashes of a group's reply under the \<open>Index\<close> of the transactions at these positions.
\<close>

definition accepted :: "int \<times> error option \<times> 'a \<Rightarrow> bool" where
  "accepted r = (fst r = 200 \<and> fst (snd r) = None)"

definition postGroup ::
  "env \<Rightarrow> store \<Rightarrow> ref list \<Rightarrow> Observer \<Rightarrow> int \<times> error option \<times> ResponseMultipleTransactions"
where
  "postGroup e st groupOfTxs ob =
     CallPostTransactions e (Address ob) MultipleTransactionsPath (map st groupOfTxs)"

definition groupReply ::
  "env \<Rightarrow> store \<Rightarrow> shard \<times> ref list \<Rightarrow> ResponseMultipleTransactions option"
where
  "groupReply e st sg =
     (case GetObservers e (fst sg) of
        Inl err \<Rightarrow> None
      | Inr observers \<Rightarrow>
          (case find (\<lambda>ob. accepted (postGroup e st (snd sg) ob)) observers of
             None \<Rightarrow> None
           | Some ob \<Rightarrow> Some (snd (snd (postGroup e st (snd sg) ob)))))"

definition hasObservers :: "env \<Rightarrow> shard \<times> ref list \<Rightarrow> bool" where
  "hasObservers e sg = (case GetObservers e (fst sg) of Inl err \<Rightarrow> False | Inr observers \<Rightarrow> True)"

definition keysInRange :: "ref list \<Rightarrow> (int \<times> string) list \<Rightarrow> bool" where
  "keysInRange groupOfTxs kvs =
     list_all (\<lambda>kv. 0 \<le> fst kv \<and> fst kv < int (length groupOfTxs)) kvs"

definition replyInRange :: "env \<Rightarrow> store \<Rightarrow> shard \<times> ref list \<Rightarrow> bool" where
  "replyInRange e st sg =
     (case groupReply e st sg of
        None \<Rightarrow> True
      | Some txResponse \<Rightarrow> keysInRange (snd sg) (TxsHashes txResponse))"

definition countOf :: "ResponseMultipleTransactions option \<Rightarrow> 64 word" where
  "countOf r = (case r of None \<Rightarrow> 0 | Some txResponse \<Rightarrow> NumOfTxs txResponse)"

definition mergeEntries ::
  "store \<Rightarrow> ref list \<Rightarrow> (int \<times> string) list \<Rightarrow> (int \<times> string) list \<Rightarrow> (int \<times> string) list"
where
  "mergeEntries st groupOfTxs kvs txsHashes =
     fold (\<lambda>kv. AList.update (Index (st (groupOfTxs ! nat (fst kv)))) (snd kv)) kvs txsHashes"

definition mergeGroup ::
  "env \<Rightarrow> store \<Rightarrow> shard \<times> ref list \<Rightarrow> (int \<times> string) list \<Rightarrow> (int \<times> string) list"
where
  "mergeGroup e st sg txsHashes =
     (case groupReply e st sg of
        None \<Rightarrow> txsHashes
      | Some txResponse \<Rightarrow> mergeEntries st (snd sg) (TxsHashes txResponse) txsHashes)"

text \<open>
  Three transaction objects for the examples: at reference 10 a transaction whose
  sender does not decode, at 11 one sent by \<open>erd1alice\<close> (shard 0), at 12 one sent
  by \<open>erd1bob\<close> (shard 1).  In \<open>bulkEnv\<close> observer \<open>b\<close> accepts a bulk post and reports
  one hash, for the transaction at position 0 of the group; all other observers are down.
\<close>

definition bobTx :: Transaction where
  "bobTx =
     \<lparr>Nonce = 5, Value = ''3'', Receiver = ''erd1alice'', Sender = ''erd1bob'',
      GasPrice = 1, GasLimit = 50000, Data = '''', Signature = ''aa'', Index = 0\<rparr>"

definition bulkStore :: store where
  "bulkStore = (\<lambda>p. demoTx)(10 := demoTx\<lparr>Sender := ''nobody''\<rparr>, 12 := bobTx)"

definition bulkEnv :: env where
  "bulkEnv = demoEnv\<lparr>
     CallPostTransactions := (\<lambda>address path txs.
       if address = ''http://b'' \<and> path = ''/transaction/send-multiple'' then
         (200, None, \<lparr>NumOfTxs = 1, TxsHashes = [(0, ''h1'')]\<rparr>)
       else (404, notFound, \<lparr>NumOfTxs = 0, TxsHashes = []\<rparr>))\<rparr>"

definition foreignKeyEnv :: env where
  "foreignKeyEnv = demoEnv\<lparr>
     CallPostTransactions := (\<lambda>address path txs.
       if address = ''http://b'' \<and> path = ''/transaction/send-multiple'' then
         (200, None, \<lparr>NumOfTxs = 1, TxsHashes = [(5, ''h1'')]\<rparr>)
       else (404, notFound, \<lparr>NumOfTxs = 0, TxsHashes = []\<rparr>))\<rparr>"

section \<open>Unfolding the examples\<close>

lemmas demo_defs =
  obsA_def obsB_def obsC_def obsX_def obsY_def obsM_def demoDecode_def demoHexDecodeString_def
  demoComputeShardId_def demoGetObservers_def noTransaction_def noAccount_def notFound_def
  demoEnv_def MetachainShardId_def TransactionPath_def TransactionSendPath_def
  MultipleTransactionsPath_def TransactionCostPath_def UnknownStatusTx_def AddressPath_def
  StatusOK_def StatusBadRequest_def StatusNotFound_def StatusRequestTimeout_def
  StatusInternalServerError_def

section \<open>Shard resolution of the metachain id\<close>

lemma metachain_id_text: "FormatUint (unat MetachainShardId) = ''4294967295''"
  by (simp add: MetachainShardId_def FormatUint.simps digit_char_def)

text \<open>
  C9.  For the sender string \<open>4294967295\<close>, the decimal rendering of the metachain id,
  shard resolution in the transaction processor returns the metachain shard id
  whatever the address decoder and the shard coordinator would say about that string:
  the string is not decoded.  So \<open>GetTransactionStatus\<close> with this sender hint and
  \<open>GetTransactionByHashAndSenderAddress\<close> with this sender never stop with an
  invalid-address error: both go on to the observers of the metachain.
\<close>

theorem getShardByAddress_metachain:
  "getShardByAddress e ''4294967295'' = Inr MetachainShardId \<and>
   GetTransactionStatus e txHash ''4294967295'' =
     (case GetObservers e MetachainShardId of
        Inl err \<Rightarrow> (UnknownStatusTx, Some err)
      | Inr observers \<Rightarrow> getTxStatusWithSenderAddr_loop e txHash MetachainShardId observers) \<and>
   GetTransactionByHashAndSenderAddress e txHash ''4294967295'' =
     (case GetObservers e MetachainShardId of
        Inl err \<Rightarrow> (None, StatusInternalServerError, Some err)
      | Inr observers \<Rightarrow> GetTransactionByHashAndSenderAddress_loop e txHash observers)"
proof -
  have s: "getShardByAddress e ''4294967295'' = Inr MetachainShardId"
    unfolding getShardByAddress_def metachain_id_text by simp
  then show ?thesis
    by (simp add: GetTransactionStatus_def getTxStatusWithSenderAddr_def
          GetTransactionByHashAndSenderAddress_def)
qed

theorem getShardByAddress_metachain_witness:
  "GetTransactionStatus demoEnv ''h'' ''4294967295'' = (''unknown'', Some ErrTransactionNotFound)"
proof -
  have g: "GetObservers demoEnv MetachainShardId = Inr [obsM]"
    by (simp add: demoEnv_def demoGetObservers_def MetachainShardId_def)
  have m: "getTxFromObserver demoEnv obsM ''h'' = None"
    by (simp add: getTxFromObserver_def demoEnv_def notFound_def)
  from getShardByAddress_metachain [of demoEnv "''h''"] show ?thesis
    by (simp add: g m UnknownStatusTx_def)
qed

section \<open>Status of a transaction\<close>

lemma getTxFromObserver_answered:
  "getTxFromObserver e observer txHash =
     (if answered e txHash observer
      then Some (snd (snd (CallGetTransaction e (Address observer) (TransactionPath @ txHash))))
      else None)"
  by (auto simp: getTxFromObserver_def answered_def split: prod.splits)

lemma getTxFromObserver_None:
  "\<not> answered e txHash observer \<Longrightarrow> getTxFromObserver e observer txHash = None"
  by (simp add: getTxFromObserver_answered)

lemma getTxFromObserver_Some:
  "answered e txHash observer \<Longrightarrow>
     \<exists>r. getTxFromObserver e observer txHash = Some r \<and> TransactionOf r = answerOf e txHash observer"
  by (auto simp: getTxFromObserver_def answered_def answerOf_def split: prod.splits)

lemma getTxStatusFromDestShard_loop_find:
  "getTxStatusFromDestShard_loop e txHash observers =
     (case find (answered e txHash) observers of
        None \<Rightarrow> ('''', False)
      | Some d \<Rightarrow> (TxStatus (answerOf e txHash d), True))"
  by (induction observers) (auto simp: answered_def answerOf_def split: prod.splits)

lemma getTxStatusFromDestShard_find:
  "getTxStatusFromDestShard e txHash dstShardID =
     (case destinationAnswer e txHash dstShardID of
        None \<Rightarrow> ('''', False)
      | Some d \<Rightarrow> (TxStatus (answerOf e txHash d), True))"
  by (simp add: getTxStatusFromDestShard_def destinationAnswer_def
        getTxStatusFromDestShard_loop_find split: sum.splits)

lemma GetTransactionStatus_loop_exhausted:
  "find (answered e txHash) observers = None \<Longrightarrow>
     GetTransactionStatus_loop e txHash observers = (UnknownStatusTx, Some ErrTransactionNotFound)"
  by (induction observers) (auto simp: getTxFromObserver_answered split: if_splits)

lemma getTxStatusWithSenderAddr_loop_exhausted:
  "find (answered e txHash) observers = None \<Longrightarrow>
     getTxStatusWithSenderAddr_loop e txHash sndShardID observers =
       (UnknownStatusTx, Some ErrTransactionNotFound)"
  by (induction observers) (auto simp: getTxFromObserver_answered split: if_splits)

lemma GetTransactionStatus_loop_hit:
  assumes "find (answered e txHash) observers = Some observer"
    and "receiverShard e (answerOf e txHash observer) \<noteq> ShardId observer"
    and "shardIgnoringError (getShardByAddress e (TxSender (answerOf e txHash observer)))
           \<noteq> receiverShard e (answerOf e txHash observer)"
  shows "GetTransactionStatus_loop e txHash observers =
     (case destinationAnswer e txHash (receiverShard e (answerOf e txHash observer)) of
        None \<Rightarrow> (TxStatus (answerOf e txHash observer), None)
      | Some d \<Rightarrow> (TxStatus (answerOf e txHash d), None))"
  using assms
proof (induction observers)
  case Nil
  then show ?case by simp
next
  case (Cons a observers)
  show ?case
  proof (cases "answered e txHash a")
    case True
    with Cons.prems(1) have a: "a = observer" by simp
    from True obtain r where r: "getTxFromObserver e a txHash = Some r"
      "TransactionOf r = answerOf e txHash a"
      using getTxFromObserver_Some by blast
    show ?thesis
      using Cons.prems(2,3) r a
      by (simp add: Let_def receiverShard_def getTxStatusFromDestShard_find split: option.splits)
  next
    case False
    then show ?thesis using Cons by (simp add: getTxFromObserver_None)
  qed
qed

lemma getTxStatusWithSenderAddr_loop_hit:
  assumes "find (answered e txHash) observers = Some observer"
    and "receiverShard e (answerOf e txHash observer) \<noteq> sndShardID"
  shows "getTxStatusWithSenderAddr_loop e txHash sndShardID observers =
     (case destinationAnswer e txHash (receiverShard e (answerOf e txHash observer)) of
        None \<Rightarrow> (TxStatus (answerOf e txHash observer), None)
      | Some d \<Rightarrow> (TxStatus (answerOf e txHash d), None))"
  using assms
proof (induction observers)
  case Nil
  then show ?case by simp
next
  case (Cons a observers)
  show ?case
  proof (cases "answered e txHash a")
    case True
    with Cons.prems(1) have a: "a = observer" by simp
    from True obtain r where r: "getTxFromObserver e a txHash = Some r"
      "TransactionOf r = answerOf e txHash a"
      using getTxFromObserver_Some by blast
    show ?thesis
      using Cons.prems(2) r a
      by (simp add: Let_def receiverShard_def getTxStatusFromDestShard_find split: option.splits)
  next
    case False
    then show ?thesis using Cons by (simp add: getTxFromObserver_None)
  qed
qed

lemma getShardByAddress_demo:
  "getShardByAddress overrideEnv ''erd1alice'' = Inr 0"
  "getShardByAddress overrideEnv ''erd1bob'' = Inr 1"
  "getShardByAddress fallbackEnv ''erd1alice'' = Inr 0"
  "getShardByAddress fallbackEnv ''erd1bob'' = Inr 1"
  by (simp_all add: getShardByAddress_def metachain_id_text overrideEnv_def fallbackEnv_def
        demoEnv_def demoDecode_def demoComputeShardId_def)

lemma getShardByAddress_demoEnv:
  "getShardByAddress demoEnv ''erd1alice'' = Inr 0"
  "getShardByAddress demoEnv ''erd1bob'' = Inr 1"
  "getShardByAddress demoEnv ''nobody'' = Inl (ErrExternal ''invalid address'')"
  by (simp_all add: getShardByAddress_def metachain_id_text demoEnv_def demoDecode_def
        demoComputeShardId_def)

text \<open>
  C1.  When the first candidate that answers is an observer of the sender's shard and
  the receiver's shard is another one, \<open>GetTransactionStatus\<close> goes through the
  observers of the receiver's shard and returns the status of the first of them that
  answers (code 200, no error), with a nil error; when none of them answers, or
  \<open>GetObservers\<close> fails for that shard, it returns the status the source-shard observer
  reported, with a nil error.
\<close>

theorem GetTransactionStatus_destination_override:
  assumes "find (answered e txHash) (candidates e sender) = Some observer"
    and "ShardId observer = senderShard e sender (answerOf e txHash observer)"
    and "receiverShard e (answerOf e txHash observer)
           \<noteq> senderShard e sender (answerOf e txHash observer)"
  shows "GetTransactionStatus e txHash sender =
     (case destinationAnswer e txHash (receiverShard e (answerOf e txHash observer)) of
        None \<Rightarrow> (TxStatus (answerOf e txHash observer), None)
      | Some d \<Rightarrow> (TxStatus (answerOf e txHash d), None))"
proof (cases "sender = ''''")
  case True
  with assms show ?thesis
    by (simp add: GetTransactionStatus_def candidates_def senderShard_def
          GetTransactionStatus_loop_hit)
next
  case False
  with assms(1) obtain sndShardID observers where
    s: "getShardByAddress e sender = Inr sndShardID" and
    o: "GetObservers e sndShardID = Inr observers" and
    f: "find (answered e txHash) observers = Some observer"
    by (auto simp: candidates_def split: sum.splits)
  from assms(3) False s have
    "receiverShard e (answerOf e txHash observer) \<noteq> sndShardID"
    by (simp add: senderShard_def shardIgnoringError_def)
  with False s o f show ?thesis
    by (simp add: GetTransactionStatus_def getTxStatusWithSenderAddr_def
          getTxStatusWithSenderAddr_loop_hit)
qed

theorem GetTransactionStatus_destination_override_witness:
  "GetTransactionStatus overrideEnv ''h'' '''' = (''success'', None) \<and>
   GetTransactionStatus fallbackEnv ''h'' ''erd1alice'' = (''pending'', None)"
proof
  have a: "find (answered overrideEnv ''h'') (candidates overrideEnv '''') = Some obsA"
    by (simp add: candidates_def answered_def overrideEnv_def demo_defs)
  have t: "answerOf overrideEnv ''h'' obsA = TransactionOf (crossShardTx ''pending'')"
    by (simp add: answerOf_def overrideEnv_def demo_defs)
  have s: "ShardId obsA = senderShard overrideEnv '''' (answerOf overrideEnv ''h'' obsA)"
    unfolding t by (simp add: senderShard_def crossShardTx_def getShardByAddress_demo
          shardIgnoringError_def obsA_def)
  have r: "receiverShard overrideEnv (answerOf overrideEnv ''h'' obsA)
             \<noteq> senderShard overrideEnv '''' (answerOf overrideEnv ''h'' obsA)"
    unfolding t by (simp add: senderShard_def receiverShard_def crossShardTx_def
          getShardByAddress_demo shardIgnoringError_def)
  have d: "destinationAnswer overrideEnv ''h'' 1 = Some obsY"
    by (simp add: destinationAnswer_def answered_def overrideEnv_def demo_defs)
  have y: "answerOf overrideEnv ''h'' obsY = TransactionOf (crossShardTx ''success'')"
    by (simp add: answerOf_def overrideEnv_def demo_defs)
  have rs: "receiverShard overrideEnv (answerOf overrideEnv ''h'' obsA) = 1"
    unfolding t
    by (simp add: receiverShard_def crossShardTx_def getShardByAddress_demo shardIgnoringError_def)
  show "GetTransactionStatus overrideEnv ''h'' '''' = (''success'', None)"
    using GetTransactionStatus_destination_override [OF a s r]
    unfolding rs d by (simp add: y crossShardTx_def)
next
  have a: "find (answered fallbackEnv ''h'') (candidates fallbackEnv ''erd1alice'') = Some obsB"
    by (simp add: candidates_def getShardByAddress_demo)
       (simp add: answered_def fallbackEnv_def demo_defs)
  have t: "answerOf fallbackEnv ''h'' obsB = TransactionOf (crossShardTx ''pending'')"
    by (simp add: answerOf_def fallbackEnv_def demo_defs)
  have s: "ShardId obsB = senderShard fallbackEnv ''erd1alice'' (answerOf fallbackEnv ''h'' obsB)"
    unfolding t by (simp add: senderShard_def crossShardTx_def getShardByAddress_demo
          shardIgnoringError_def obsB_def)
  have r: "receiverShard fallbackEnv (answerOf fallbackEnv ''h'' obsB)
             \<noteq> senderShard fallbackEnv ''erd1alice'' (answerOf fallbackEnv ''h'' obsB)"
    unfolding t by (simp add: senderShard_def receiverShard_def crossShardTx_def
          getShardByAddress_demo shardIgnoringError_def)
  have d: "destinationAnswer fallbackEnv ''h'' 1 = None"
    by (simp add: destinationAnswer_def answered_def fallbackEnv_def demo_defs)
  have rs: "receiverShard fallbackEnv (answerOf fallbackEnv ''h'' obsB) = 1"
    unfolding t
    by (simp add: receiverShard_def crossShardTx_def getShardByAddress_demo shardIgnoringError_def)
  show "GetTransactionStatus fallbackEnv ''h'' ''erd1alice'' = (''pending'', None)"
    using GetTransactionStatus_destination_override [OF a s r]
    unfolding rs d by (simp add: t crossShardTx_def)
qed

text \<open>
  C2, as the code has it.  When no candidate answers, the status is \<open>unknown\<close>.  The
  error beside it is \<open>ErrTransactionNotFound\<close> when no sender is given, and when the
  sender's shard and its observers are found; it is \<open>ErrInvalidSenderAddress\<close> when the
  sender's shard cannot be resolved, and the error of \<open>GetObservers\<close> when the inventory
  has no observers for the sender's shard.
\<close>

theorem GetTransactionStatus_unknown:
  assumes "list_all (\<lambda>ob. \<not> answered e txHash ob) (candidates e sender)"
  shows "GetTransactionStatus e txHash sender =
     (UnknownStatusTx,
      Some (if sender = '''' then ErrTransactionNotFound
            else
              (case getShardByAddress e sender of
                 Inl err \<Rightarrow> ErrInvalidSenderAddress
               | Inr sndShardID \<Rightarrow>
                   (case GetObservers e sndShardID of
                      Inl err \<Rightarrow> err
                    | Inr observers \<Rightarrow> ErrTransactionNotFound))))"
proof -
  from assms have none: "find (answered e txHash) (candidates e sender) = None"
    by (simp add: find_None_iff list_all_iff)
  show ?thesis
  proof (cases "sender = ''''")
    case True
    with none show ?thesis
      by (simp add: GetTransactionStatus_def candidates_def GetTransactionStatus_loop_exhausted)
  next
    case False
    with none show ?thesis
      by (auto simp: GetTransactionStatus_def candidates_def getTxStatusWithSenderAddr_def
            getTxStatusWithSenderAddr_loop_exhausted split: sum.splits)
  qed
qed

theorem GetTransactionStatus_unknown_witness:
  "GetTransactionStatus demoEnv ''h'' '''' = (''unknown'', Some ErrTransactionNotFound) \<and>
   GetTransactionStatus demoEnv ''h'' ''erd1alice'' = (''unknown'', Some ErrTransactionNotFound)"
proof
  have "list_all (\<lambda>ob. \<not> answered demoEnv ''h'' ob) (candidates demoEnv '''')"
    by (simp add: candidates_def answered_def demo_defs)
  from GetTransactionStatus_unknown [OF this]
  show "GetTransactionStatus demoEnv ''h'' '''' = (''unknown'', Some ErrTransactionNotFound)"
    by (simp add: UnknownStatusTx_def)
next
  have "list_all (\<lambda>ob. \<not> answered demoEnv ''h'' ob) (candidates demoEnv ''erd1alice'')"
    by (simp add: candidates_def getShardByAddress_demoEnv)
       (simp add: answered_def demo_defs)
  from GetTransactionStatus_unknown [OF this]
  show "GetTransactionStatus demoEnv ''h'' ''erd1alice'' = (''unknown'', Some ErrTransactionNotFound)"
    by (simp add: UnknownStatusTx_def getShardByAddress_demoEnv)
       (simp add: demo_defs)
qed

text \<open>
  With a sender that does not decode there is no candidate at all, and the error is
  \<open>ErrInvalidSenderAddress\<close>, not \<open>ErrTransactionNotFound\<close>.
\<close>

theorem GetTransactionStatus_invalid_sender_counterexample:
  "candidates demoEnv ''nobody'' = [] \<and>
   GetTransactionStatus demoEnv ''h'' ''nobody'' = (''unknown'', Some ErrInvalidSenderAddress) \<and>
   GetTransactionStatus demoEnv ''h'' ''nobody'' \<noteq> (''unknown'', Some ErrTransactionNotFound)"
  by (simp add: candidates_def GetTransactionStatus_def getTxStatusWithSenderAddr_def
        getShardByAddress_demoEnv UnknownStatusTx_def)

section \<open>The traversal of SendTransaction\<close>

lemma SendTransaction_loop_Success:
  "classify (sendOutcome e tx ob) = Success \<Longrightarrow>
     SendTransaction_loop e tx (ob # rest) =
       ((200, TxHash (snd (snd (sendOutcome e tx ob))), None), [ob])"
  by (auto simp: classify_def sendOutcome_def StatusOK_def split: prod.splits if_splits)

lemma SendTransaction_loop_Skip:
  "classify (sendOutcome e tx ob) = Skip \<Longrightarrow>
     SendTransaction_loop e tx (ob # rest) =
       (fst (SendTransaction_loop e tx rest), ob # snd (SendTransaction_loop e tx rest))"
  by (auto simp: classify_def sendOutcome_def StatusOK_def StatusNotFound_def
        StatusRequestTimeout_def split: prod.splits if_splits)

lemma SendTransaction_loop_Fatal:
  "classify (sendOutcome e tx ob) = Fatal \<Longrightarrow>
     SendTransaction_loop e tx (ob # rest) =
       ((fst (sendOutcome e tx ob), '''', fst (snd (sendOutcome e tx ob))), [ob])"
  by (auto simp: classify_def sendOutcome_def StatusOK_def StatusNotFound_def
        StatusRequestTimeout_def split: prod.splits if_splits)

lemma SendTransaction_loop_traversal:
  "SendTransaction_loop e tx observers =
     (case dropWhile (\<lambda>ob. classify (sendOutcome e tx ob) = Skip) observers of
        [] \<Rightarrow> ((500, '''', Some ErrSendingRequest), observers)
      | ob # unvisited \<Rightarrow>
          (if classify (sendOutcome e tx ob) = Success
           then (200, TxHash (snd (snd (sendOutcome e tx ob))), None)
           else (fst (sendOutcome e tx ob), '''', fst (snd (sendOutcome e tx ob))),
           takeWhile (\<lambda>ob. classify (sendOutcome e tx ob) = Skip) observers @ [ob]))"
proof (induction observers)
  case Nil
  show ?case by (simp add: StatusInternalServerError_def)
next
  case (Cons a observers)
  show ?case
  proof (cases "classify (sendOutcome e tx a)")
    case Success
    then show ?thesis by (simp add: SendTransaction_loop_Success del: SendTransaction_loop.simps)
  next
    case Skip
    show ?thesis
    proof (cases "dropWhile (\<lambda>ob. classify (sendOutcome e tx ob) = Skip) observers")
      case Nil
      with Skip Cons.IH show ?thesis
        by (simp add: SendTransaction_loop_Skip
              del: SendTransaction_loop.simps dropWhile_eq_Nil_conv)
    next
      case (Cons ob unvisited)
      with Skip Cons.IH show ?thesis
        by (simp add: SendTransaction_loop_Skip del: SendTransaction_loop.simps)
    qed
  next
    case Fatal
    then show ?thesis by (simp add: SendTransaction_loop_Fatal del: SendTransaction_loop.simps)
  qed
qed

text \<open>
  C3.  For a transaction that passes field validation and whose sender's shard has the
  observers \<open>observers\<close>, \<open>SendTransaction\<close> posts to these observers in their order
  for as long as the replies are 404 or 408.  At the first other reply it stops: a reply
  with code 200 and no error gives \<open>(200, txHash, nil)\<close>, any other reply gives its
  code and its error.  When every observer replied 404 or 408 the result is
  \<open>(500, "", ErrSendingRequest)\<close>.  The requests made are exactly those to the observers
  up to and including the one where the traversal stopped.
\<close>

theorem SendTransaction_three_outcome:
  assumes "checkTransactionFields e tx = None"
    and "Decode e (Sender tx) = Inr senderBuff"
    and "ComputeShardId e senderBuff = Inr shardID"
    and "GetObservers e shardID = Inr observers"
  shows "SendTransaction e tx =
     (case dropWhile (\<lambda>ob. classify (sendOutcome e tx ob) = Skip) observers of
        [] \<Rightarrow> ((500, '''', Some ErrSendingRequest), observers)
      | ob # unvisited \<Rightarrow>
          (if classify (sendOutcome e tx ob) = Success
           then (200, TxHash (snd (snd (sendOutcome e tx ob))), None)
           else (fst (sendOutcome e tx ob), '''', fst (snd (sendOutcome e tx ob))),
           takeWhile (\<lambda>ob. classify (sendOutcome e tx ob) = Skip) observers @ [ob]))"
  using assms by (simp add: SendTransaction_def SendTransaction_loop_traversal)

theorem SendTransaction_three_outcome_witness:
  "SendTransaction sendEnv demoTx = ((200, ''abc'', None), [obsA, obsB])"
proof -
  have v: "checkTransactionFields sendEnv demoTx = None"
    by (simp add: checkTransactionFields_def sendEnv_def demoTx_def demo_defs)
  have d: "Decode sendEnv (Sender demoTx) = Inr [0]"
    by (simp add: sendEnv_def demoTx_def demo_defs)
  have c: "ComputeShardId sendEnv [0] = Inr 0"
    by (simp add: sendEnv_def demo_defs)
  have g: "GetObservers sendEnv 0 = Inr [obsA, obsB, obsC]"
    by (simp add: sendEnv_def demoEnv_def demoGetObservers_def)
  have a: "sendOutcome sendEnv demoTx obsA = (408, Some (ErrExternal ''timeout''), \<lparr>TxHash = ''''\<rparr>)"
    by (simp add: sendOutcome_def sendEnv_def demo_defs)
  have b: "sendOutcome sendEnv demoTx obsB = (200, None, \<lparr>TxHash = ''abc''\<rparr>)"
    by (simp add: sendOutcome_def sendEnv_def demo_defs)
  show ?thesis
    using SendTransaction_three_outcome [OF v d c g]
    by (simp add: a b classify_def)
qed

section \<open>The traversal of TransactionCostRequest\<close>

lemma TransactionCostRequest_loop_Metachain:
  "ShardId ob = MetachainShardId \<Longrightarrow>
     TransactionCostRequest_loop e tx (ob # rest) = TransactionCostRequest_loop e tx rest"
  by simp

lemma TransactionCostRequest_loop_Success:
  "ShardId ob \<noteq> MetachainShardId \<Longrightarrow> classify (costOutcome e tx ob) = Success \<Longrightarrow>
     TransactionCostRequest_loop e tx (ob # rest) =
       ((Itoa (sint (TxCost (snd (snd (costOutcome e tx ob))))), None), [ob])"
  by (auto simp: classify_def costOutcome_def StatusOK_def split: prod.splits if_splits)

lemma TransactionCostRequest_loop_Skip:
  "ShardId ob \<noteq> MetachainShardId \<Longrightarrow> classify (costOutcome e tx ob) = Skip \<Longrightarrow>
     TransactionCostRequest_loop e tx (ob # rest) =
       (fst (TransactionCostRequest_loop e tx rest),
        ob # snd (TransactionCostRequest_loop e tx rest))"
  by (auto simp: classify_def costOutcome_def StatusOK_def StatusNotFound_def
        StatusRequestTimeout_def split: prod.splits if_splits)

lemma TransactionCostRequest_loop_Fatal:
  "ShardId ob \<noteq> MetachainShardId \<Longrightarrow> classify (costOutcome e tx ob) = Fatal \<Longrightarrow>
     TransactionCostRequest_loop e tx (ob # rest) =
       (('''', fst (snd (costOutcome e tx ob))), [ob])"
  by (auto simp: classify_def costOutcome_def StatusOK_def StatusNotFound_def
        StatusRequestTimeout_def split: prod.splits if_splits)

lemma TransactionCostRequest_loop_traversal:
  "TransactionCostRequest_loop e tx observers =
     (case dropWhile (\<lambda>ob. classify (costOutcome e tx ob) = Skip) (filter notMetachain observers) of
        [] \<Rightarrow> (('''', Some ErrSendingRequest), filter notMetachain observers)
      | ob # unvisited \<Rightarrow>
          (if classify (costOutcome e tx ob) = Success
           then (Itoa (sint (TxCost (snd (snd (costOutcome e tx ob))))), None)
           else ('''', fst (snd (costOutcome e tx ob))),
           takeWhile (\<lambda>ob. classify (costOutcome e tx ob) = Skip) (filter notMetachain observers)
             @ [ob]))"
proof (induction observers)
  case Nil
  show ?case by simp
next
  case (Cons a observers)
  show ?case
  proof (cases "ShardId a = MetachainShardId")
    case True
    then have f: "filter notMetachain (a # observers) = filter notMetachain observers"
      by (simp add: notMetachain_def)
    from True have "TransactionCostRequest_loop e tx (a # observers) =
        TransactionCostRequest_loop e tx observers"
      by (rule TransactionCostRequest_loop_Metachain)
    with Cons.IH show ?thesis unfolding f by simp
  next
    case False
    then have nm: "notMetachain a" by (simp add: notMetachain_def)
    show ?thesis
    proof (cases "classify (costOutcome e tx a)")
      case Success
      with False nm show ?thesis
        by (simp add: TransactionCostRequest_loop_Success del: TransactionCostRequest_loop.simps)
    next
      case Skip
      show ?thesis
      proof (cases "dropWhile (\<lambda>ob. classify (costOutcome e tx ob) = Skip)
                      (filter notMetachain observers)")
        case Nil
        with Skip False nm Cons.IH show ?thesis
          by (simp add: TransactionCostRequest_loop_Skip
                del: TransactionCostRequest_loop.simps dropWhile_eq_Nil_conv)
      next
        case (Cons ob unvisited)
        with Skip False nm Cons.IH show ?thesis
          by (simp add: TransactionCostRequest_loop_Skip del: TransactionCostRequest_loop.simps)
      qed
    next
      case Fatal
      with False nm show ?thesis
        by (simp add: TransactionCostRequest_loop_Fatal del: TransactionCostRequest_loop.simps)
    qed
  qed
qed

lemma TransactionCostRequest_loop_called:
  "list_all notMetachain (snd (TransactionCostRequest_loop e tx observers))"
  by (induction observers) (auto simp: notMetachain_def split: prod.splits)

text \<open>
  C7.  \<open>TransactionCostRequest\<close> never posts to an observer of the metachain.  For a
  transaction that passes field validation it goes through the other observers of
  \<open>GetAllObservers\<close> in their order: 404 and 408 lead to the next observer, code 200
  without error gives the cost (in decimal) and a nil error, any other reply ends the
  traversal with that reply's error, and \<open>ErrSendingRequest\<close> is returned when all
  observers were passed over.
\<close>

theorem TransactionCostRequest_skips_metachain:
  "list_all notMetachain (snd (TransactionCostRequest e tx)) \<and>
   (checkTransactionFields e tx = None \<longrightarrow>
      TransactionCostRequest e tx =
        (case dropWhile (\<lambda>ob. classify (costOutcome e tx ob) = Skip)
                (filter notMetachain (GetAllObservers e)) of
           [] \<Rightarrow> (('''', Some ErrSendingRequest), filter notMetachain (GetAllObservers e))
         | ob # unvisited \<Rightarrow>
             (if classify (costOutcome e tx ob) = Success
              then (Itoa (sint (TxCost (snd (snd (costOutcome e tx ob))))), None)
              else ('''', fst (snd (costOutcome e tx ob))),
              takeWhile (\<lambda>ob. classify (costOutcome e tx ob) = Skip)
                (filter notMetachain (GetAllObservers e)) @ [ob])))"
proof (intro conjI impI)
  show "list_all notMetachain (snd (TransactionCostRequest e tx))"
    by (simp add: TransactionCostRequest_def TransactionCostRequest_loop_called
          split: option.splits)
next
  assume "checkTransactionFields e tx = None"
  then have "TransactionCostRequest e tx = TransactionCostRequest_loop e tx (GetAllObservers e)"
    by (simp add: TransactionCostRequest_def)
  then show "TransactionCostRequest e tx =
        (case dropWhile (\<lambda>ob. classify (costOutcome e tx ob) = Skip)
                (filter notMetachain (GetAllObservers e)) of
           [] \<Rightarrow> (('''', Some ErrSendingRequest), filter notMetachain (GetAllObservers e))
         | ob # unvisited \<Rightarrow>
             (if classify (costOutcome e tx ob) = Success
              then (Itoa (sint (TxCost (snd (snd (costOutcome e tx ob))))), None)
              else ('''', fst (snd (costOutcome e tx ob))),
              takeWhile (\<lambda>ob. classify (costOutcome e tx ob) = Skip)
                (filter notMetachain (GetAllObservers e)) @ [ob]))"
    by (simp only: TransactionCostRequest_loop_traversal)
qed

theorem TransactionCostRequest_skips_metachain_witness:
  "GetAllObservers costEnv = [obsM, obsA, obsB, obsC, obsX, obsY] \<and>
   TransactionCostRequest costEnv demoTx = ((''50000'', None), [obsA, obsB])"
proof
  show "GetAllObservers costEnv = [obsM, obsA, obsB, obsC, obsX, obsY]"
    by (simp add: costEnv_def demoEnv_def)
next
  have v: "checkTransactionFields costEnv demoTx = None"
    by (simp add: checkTransactionFields_def costEnv_def demoTx_def demo_defs)
  have f: "filter notMetachain (GetAllObservers costEnv) = [obsA, obsB, obsC, obsX, obsY]"
    by (simp add: notMetachain_def costEnv_def demo_defs)
  have a: "costOutcome costEnv demoTx obsA = (404, notFound, \<lparr>TxCost = 0\<rparr>)"
    by (simp add: costOutcome_def costEnv_def demo_defs)
  have b: "costOutcome costEnv demoTx obsB = (200, None, \<lparr>TxCost = 50000\<rparr>)"
    by (simp add: costOutcome_def costEnv_def demo_defs)
  have i: "Itoa 50000 = ''50000''"
    by (simp add: Itoa_def FormatUint.simps digit_char_def)
  show "TransactionCostRequest costEnv demoTx = ((''50000'', None), [obsA, obsB])"
    using TransactionCostRequest_skips_metachain [of costEnv demoTx] v
    unfolding f by (simp add: a b i classify_def)
qed

section \<open>The traversal of GetAccount\<close>

lemma GetAccount_loop_traversal:
  "GetAccount_loop e address observers =
     (case dropWhile (\<lambda>ob. accountError e address ob \<noteq> None) observers of
        [] \<Rightarrow> ((None, Some ErrSendingRequest), observers)
      | ob # unvisited \<Rightarrow>
          ((Some (accountOf e address ob), None),
           takeWhile (\<lambda>ob. accountError e address ob \<noteq> None) observers @ [ob]))"
proof (induction observers)
  case Nil
  show ?case by simp
next
  case (Cons a observers)
  show ?case
  proof (cases "accountError e address a")
    case None
    then show ?thesis
      by (auto simp: accountError_def accountOf_def split: prod.splits)
  next
    case (Some err)
    then have step: "GetAccount_loop e address (a # observers) =
        (fst (GetAccount_loop e address observers), a # snd (GetAccount_loop e address observers))"
      by (auto simp: accountError_def split: prod.splits)
    show ?thesis
    proof (cases "dropWhile (\<lambda>ob. accountError e address ob \<noteq> None) observers")
      case Nil
      with Some Cons.IH show ?thesis unfolding step
        by (simp del: GetAccount_loop.simps dropWhile_eq_Nil_conv)
    next
      case (Cons ob unvisited)
      with Some Cons.IH show ?thesis unfolding step
        by (simp del: GetAccount_loop.simps)
    qed
  qed
qed

lemma getObserversForAddress_demo:
  "getObserversForAddress boomEnv ''erd1alice'' = Inr [obsA, obsB, obsC]"
  "getObserversForAddress demoEnv ''erd1alice'' = Inr [obsA, obsB, obsC]"
  by (simp_all add: getObserversForAddress_def boomEnv_def demoEnv_def demoDecode_def
        demoComputeShardId_def demoGetObservers_def)

text \<open>
  C4, as the code has it.  \<open>GetAccount\<close> does not look at the response code.  An
  observer whose call returns an error, with code 500 or any other, is passed over and
  the next observer of the shard is called; the account comes from the first observer
  whose call returns no error, and the result is \<open>ErrSendingRequest\<close> when every call
  returned an error.  So with observers \<open>[A, B, C]\<close> and \<open>A\<close> failing with 500, \<open>B\<close>
  is called next, and \<open>C\<close> after it if \<open>B\<close> fails too.
\<close>

theorem GetAccount_skips_every_error:
  assumes "getObserversForAddress e address = Inr observers"
  shows "GetAccount e address =
     (case dropWhile (\<lambda>ob. accountError e address ob \<noteq> None) observers of
        [] \<Rightarrow> ((None, Some ErrSendingRequest), observers)
      | ob # unvisited \<Rightarrow>
          ((Some (accountOf e address ob), None),
           takeWhile (\<lambda>ob. accountError e address ob \<noteq> None) observers @ [ob]))"
  using assms by (simp add: GetAccount_def GetAccount_loop_traversal)

theorem GetAccount_skips_every_error_witness:
  "GetAccount demoEnv ''erd1alice'' = ((None, Some ErrSendingRequest), [obsA, obsB, obsC])"
proof -
  have e: "accountError demoEnv ''erd1alice'' obsA = notFound"
    "accountError demoEnv ''erd1alice'' obsB = notFound"
    "accountError demoEnv ''erd1alice'' obsC = notFound"
    by (simp_all add: accountError_def demoEnv_def)
  show ?thesis
    using GetAccount_skips_every_error [OF getObserversForAddress_demo(2)]
    by (simp add: e notFound_def)
qed

text \<open>
  The shard of \<open>erd1alice\<close> has the observers \<open>[a, b, c]\<close>; \<open>a\<close> fails with 500 and
  the message \<open>boom\<close>; \<open>GetAccount\<close> then calls \<open>b\<close> and returns the account \<open>b\<close>
  reports, not the 500.
\<close>

theorem GetAccount_fatal_counterexample:
  "getObserversForAddress boomEnv ''erd1alice'' = Inr [obsA, obsB, obsC] \<and>
   CallGetAccount boomEnv (Address obsA) (AddressPath @ ''erd1alice'') =
     (500, Some (ErrExternal ''boom''), noAccount) \<and>
   GetAccount boomEnv ''erd1alice'' =
     ((Some \<lparr>AccountAddress = ''erd1alice'', AccountNonce = 3, Balance = ''7''\<rparr>, None),
      [obsA, obsB]) \<and>
   GetAccount boomEnv ''erd1alice'' \<noteq> ((None, Some (ErrExternal ''boom'')), [obsA])"
  by (simp add: GetAccount_def getObserversForAddress_demo)
     (simp add: boomEnv_def demo_defs)

section \<open>GetTransaction and GetTransactionByHashAndSenderAddress\<close>

lemma GetTransaction_loop_find:
  "GetTransaction_loop e txHash err observers =
     (case find (answered e txHash) observers of
        Some ob \<Rightarrow> (Some (answerOf e txHash ob), None)
      | None \<Rightarrow>
          (None,
           if observers = [] then err
           else fst (snd (CallGetTransaction e (Address (last observers)) (TransactionPath @ txHash)))))"
proof (induction observers arbitrary: err)
  case Nil
  show ?case by simp
next
  case (Cons ob rest)
  obtain respCode err' getTxResponse where
    c: "CallGetTransaction e (Address ob) (TransactionPath @ txHash) = (respCode, err', getTxResponse)"
    by (cases "CallGetTransaction e (Address ob) (TransactionPath @ txHash)")
  show ?case
  proof (cases "answered e txHash ob")
    case True
    with c show ?thesis by (simp add: answered_def answerOf_def)
  next
    case False
    with c have "GetTransaction_loop e txHash err (ob # rest) = GetTransaction_loop e txHash err' rest"
      by (auto simp: answered_def)
    with False c Cons.IH [of err'] show ?thesis
      by (cases rest) (simp_all split: option.splits)
  qed
qed

text \<open>
  \<open>GetTransaction\<close> returns the transaction of the first observer that answers, with a
  nil error.  When no observer answers it returns no transaction, and as error whatever
  the call to the last observer returned (nil when there is no observer).
\<close>

theorem GetTransaction_first_answer:
  "GetTransaction e txHash =
     (case find (answered e txHash) (GetAllObservers e) of
        Some ob \<Rightarrow> (Some (answerOf e txHash ob), None)
      | None \<Rightarrow>
          (None,
           if GetAllObservers e = [] then None
           else fst (snd (CallGetTransaction e (Address (last (GetAllObservers e)))
                            (TransactionPath @ txHash)))))"
  by (simp add: GetTransaction_def GetTransaction_loop_find)

lemma GetTransactionByHashAndSenderAddress_loop_find:
  "GetTransactionByHashAndSenderAddress_loop e txHash observers =
     (case find (answered e txHash) observers of
        Some ob \<Rightarrow> (Some (answerOf e txHash ob), StatusOK, None)
      | None \<Rightarrow> (None, StatusNotFound, Some ErrTransactionNotFound))"
proof (induction observers)
  case Nil
  show ?case by simp
next
  case (Cons ob rest)
  obtain respCode err getTxResponse where
    c: "CallGetTransaction e (Address ob) (TransactionPath @ txHash) = (respCode, err, getTxResponse)"
    by (cases "CallGetTransaction e (Address ob) (TransactionPath @ txHash)")
  show ?case
  proof (cases "answered e txHash ob")
    case True
    with c show ?thesis by (simp add: answered_def answerOf_def)
  next
    case False
    with c have "GetTransactionByHashAndSenderAddress_loop e txHash (ob # rest) =
        GetTransactionByHashAndSenderAddress_loop e txHash rest"
      by (auto simp: answered_def)
    with False Cons.IH show ?thesis by simp
  qed
qed

text \<open>
  \<open>GetTransactionByHashAndSenderAddress\<close> goes through the observers of the sender's
  shard in the same way, but ends with \<open>ErrTransactionNotFound\<close> and code 404 when no
  observer answers.
\<close>

theorem GetTransactionByHashAndSenderAddress_first_answer:
  "GetTransactionByHashAndSenderAddress e txHash sndAddr =
     (case getShardByAddress e sndAddr of
        Inl err \<Rightarrow> (None, StatusBadRequest, Some ErrInvalidSenderAddress)
      | Inr shardID \<Rightarrow>
          (case GetObservers e shardID of
             Inl err \<Rightarrow> (None, StatusInternalServerError, Some err)
           | Inr observers \<Rightarrow>
               (case find (answered e txHash) observers of
                  Some ob \<Rightarrow> (Some (answerOf e txHash ob), StatusOK, None)
                | None \<Rightarrow> (None, StatusNotFound, Some ErrTransactionNotFound))))"
  by (simp add: GetTransactionByHashAndSenderAddress_def
        GetTransactionByHashAndSenderAddress_loop_find split: sum.splits)

text \<open>
  C8.  \<open>GetTransaction\<close> returns the error of the last call when no observer answered.
  With an empty inventory, or when the last observer replies with a code other than
  200 and no error, that error is nil: the call returns a nil transaction and a nil
  error.
\<close>

theorem GetTransaction_exhausted_nil_error:
  "GetTransaction emptyInventoryEnv ''h'' = (None, None) \<and>
   GetTransaction plain404Env ''h'' = (None, None)"
  by (simp add: GetTransaction_def emptyInventoryEnv_def plain404Env_def demo_defs)

section \<open>Grouping by shard\<close>

lemma appendTx_keys: "fst ` set (appendTx m s tx) = insert s (fst ` set m)"
  by (induction m s tx rule: appendTx.induct) auto

lemma appendTx_distinct: "distinct (map fst m) \<Longrightarrow> distinct (map fst (appendTx m s tx))"
proof (induction m s tx rule: appendTx.induct)
  case (1 shardID tx)
  show ?case by simp
next
  case (2 s groupOfTxs m shardID tx)
  then show ?case
    using appendTx_keys [of m shardID tx] by (auto simp: image_iff)
qed

lemma lookupGroup_appendTx:
  "lookupGroup (appendTx m s tx) s' =
     (if s' = s then lookupGroup m s @ [tx] else lookupGroup m s')"
  by (induction m s tx rule: appendTx.induct) (auto simp: lookupGroup_def)

text \<open>The loop, step by step, in terms of the sender's shard.\<close>

lemma groupTxsByShard_loop_skip:
  "senderShardOf e (Sender (st tx)) = None \<Longrightarrow>
     groupTxsByShard_loop e idx (tx # rest) (m, st) = groupTxsByShard_loop e (idx + 1) rest (m, st)"
  by (auto simp: senderShardOf_def split: sum.splits)

lemma groupTxsByShard_loop_add:
  "senderShardOf e (Sender (st tx)) = Some s \<Longrightarrow>
     groupTxsByShard_loop e idx (tx # rest) (m, st) =
       groupTxsByShard_loop e (idx + 1) rest
         (appendTx m s tx, st(tx := (st tx)\<lparr>Index := idx\<rparr>))"
  by (auto simp: senderShardOf_def split: sum.splits)

lemma groupTxsByShard_loop_frame:
  "snd (groupTxsByShard_loop e idx txs (m, st)) p =
     (st p)\<lparr>Index := Index (snd (groupTxsByShard_loop e idx txs (m, st)) p)\<rparr>"
proof (induction txs arbitrary: idx m st)
  case Nil
  show ?case by simp
next
  case (Cons tx rest)
  show ?case
  proof (cases "senderShardOf e (Sender (st tx))")
    case None
    then show ?thesis
      using Cons.IH [of "idx + 1" m st]
      by (simp add: groupTxsByShard_loop_skip del: groupTxsByShard_loop.simps)
  next
    case (Some s)
    let ?st = "st(tx := (st tx)\<lparr>Index := idx\<rparr>)"
    let ?r = "snd (groupTxsByShard_loop e (idx + 1) rest (appendTx m s tx, ?st)) p"
    have "?r = (?st p)\<lparr>Index := Index ?r\<rparr>" by (rule Cons.IH)
    moreover have "(?st p)\<lparr>Index := Index ?r\<rparr> = (st p)\<lparr>Index := Index ?r\<rparr>" by simp
    ultimately show ?thesis
      using Some by (simp add: groupTxsByShard_loop_add del: groupTxsByShard_loop.simps)
  qed
qed

lemma groupTxsByShard_loop_untouched:
  "p \<notin> set (filter (\<lambda>tx. senderShardOf e (Sender (st tx)) \<noteq> None) txs) \<Longrightarrow>
     snd (groupTxsByShard_loop e idx txs (m, st)) p = st p"
proof (induction txs arbitrary: idx m st)
  case Nil
  show ?case by simp
next
  case (Cons tx rest)
  show ?case
  proof (cases "senderShardOf e (Sender (st tx))")
    case None
    with Cons.prems show ?thesis
      using Cons.IH [of st "idx + 1" m]
      by (simp add: groupTxsByShard_loop_skip del: groupTxsByShard_loop.simps)
  next
    case (Some s)
    let ?st = "st(tx := (st tx)\<lparr>Index := idx\<rparr>)"
    have same: "(\<lambda>q. senderShardOf e (Sender (?st q)) \<noteq> None) =
                (\<lambda>q. senderShardOf e (Sender (st q)) \<noteq> None)"
      by (rule ext) simp
    from Cons.prems Some have ne: "p \<noteq> tx" and
      nin: "p \<notin> set (filter (\<lambda>q. senderShardOf e (Sender (?st q)) \<noteq> None) rest)"
      unfolding same by auto
    have "snd (groupTxsByShard_loop e (idx + 1) rest (appendTx m s tx, ?st)) p = ?st p"
      by (rule Cons.IH [OF nin])
    moreover have "?st p = st p" using ne by simp
    moreover have "groupTxsByShard_loop e idx (tx # rest) (m, st) =
        groupTxsByShard_loop e (idx + 1) rest (appendTx m s tx, ?st)"
      using Some by (rule groupTxsByShard_loop_add)
    ultimately show ?thesis by simp
  qed
qed

lemma groupTxsByShard_loop_Index:
  "i < length txs \<Longrightarrow> senderShardOf e (Sender (st (txs ! i))) \<noteq> None \<Longrightarrow>
   txs ! i \<notin> set (drop (Suc i) txs) \<Longrightarrow>
     Index (snd (groupTxsByShard_loop e idx txs (m, st)) (txs ! i)) = idx + int i"
proof (induction txs arbitrary: i idx m st)
  case Nil
  then show ?case by simp
next
  case (Cons tx rest)
  show ?case
  proof (cases i)
    case 0
    with Cons.prems obtain s where s: "senderShardOf e (Sender (st tx)) = Some s" by auto
    let ?st = "st(tx := (st tx)\<lparr>Index := idx\<rparr>)"
    from Cons.prems 0 have "tx \<notin> set rest" by simp
    then have "tx \<notin> set (filter (\<lambda>q. senderShardOf e (Sender (?st q)) \<noteq> None) rest)" by simp
    then have "snd (groupTxsByShard_loop e (idx + 1) rest (appendTx m s tx, ?st)) tx = ?st tx"
      by (rule groupTxsByShard_loop_untouched)
    moreover have "Index (?st tx) = idx" by simp
    moreover have "groupTxsByShard_loop e idx (tx # rest) (m, st) =
        groupTxsByShard_loop e (idx + 1) rest (appendTx m s tx, ?st)"
      using s by (rule groupTxsByShard_loop_add)
    ultimately show ?thesis using 0 by simp
  next
    case (Suc j)
    with Cons.prems have j: "j < length rest" and nin: "rest ! j \<notin> set (drop (Suc j) rest)"
      and g: "senderShardOf e (Sender (st (rest ! j))) \<noteq> None" by simp_all
    show ?thesis
    proof (cases "senderShardOf e (Sender (st tx))")
      case None
      have "Index (snd (groupTxsByShard_loop e (idx + 1) rest (m, st)) (rest ! j)) =
          idx + 1 + int j"
        using j g nin by (rule Cons.IH)
      with None Suc show ?thesis
        by (simp add: groupTxsByShard_loop_skip del: groupTxsByShard_loop.simps)
    next
      case (Some s)
      let ?st = "st(tx := (st tx)\<lparr>Index := idx\<rparr>)"
      have eq: "Sender (?st (rest ! j)) = Sender (st (rest ! j))" by simp
      have g': "senderShardOf e (Sender (?st (rest ! j))) \<noteq> None"
        unfolding eq by (rule g)
      have "Index (snd (groupTxsByShard_loop e (idx + 1) rest (appendTx m s tx, ?st)) (rest ! j)) =
          idx + 1 + int j"
        using j g' nin by (rule Cons.IH)
      moreover have "groupTxsByShard_loop e idx (tx # rest) (m, st) =
          groupTxsByShard_loop e (idx + 1) rest (appendTx m s tx, ?st)"
        using Some by (rule groupTxsByShard_loop_add)
      ultimately show ?thesis using Suc by simp
    qed
  qed
qed

lemma groupTxsByShard_loop_lookup:
  "lookupGroup (fst (groupTxsByShard_loop e idx txs (m, st))) s =
     lookupGroup m s @ filter (\<lambda>tx. senderShardOf e (Sender (st tx)) = Some s) txs"
proof (induction txs arbitrary: idx m st)
  case Nil
  show ?case by simp
next
  case (Cons tx rest)
  show ?case
  proof (cases "senderShardOf e (Sender (st tx))")
    case None
    have "lookupGroup (fst (groupTxsByShard_loop e (idx + 1) rest (m, st))) s =
        lookupGroup m s @ filter (\<lambda>tx. senderShardOf e (Sender (st tx)) = Some s) rest"
      by (rule Cons.IH)
    with None show ?thesis
      by (simp add: groupTxsByShard_loop_skip del: groupTxsByShard_loop.simps)
  next
    case (Some s')
    let ?st = "st(tx := (st tx)\<lparr>Index := idx\<rparr>)"
    have same: "(\<lambda>q. senderShardOf e (Sender (?st q)) = Some s) =
                (\<lambda>q. senderShardOf e (Sender (st q)) = Some s)"
      by (rule ext) simp
    have "lookupGroup (fst (groupTxsByShard_loop e (idx + 1) rest (appendTx m s' tx, ?st))) s =
        lookupGroup (appendTx m s' tx) s @
          filter (\<lambda>q. senderShardOf e (Sender (?st q)) = Some s) rest"
      by (rule Cons.IH)
    moreover have "groupTxsByShard_loop e idx (tx # rest) (m, st) =
        groupTxsByShard_loop e (idx + 1) rest (appendTx m s' tx, ?st)"
      using Some by (rule groupTxsByShard_loop_add)
    ultimately show ?thesis
      unfolding same using Some by (simp add: lookupGroup_appendTx)
  qed
qed

lemma groupTxsByShard_loop_distinct:
  "distinct (map fst m) \<Longrightarrow> distinct (map fst (fst (groupTxsByShard_loop e idx txs (m, st))))"
proof (induction txs arbitrary: idx m st)
  case Nil
  then show ?case by simp
next
  case (Cons tx rest)
  show ?case
  proof (cases "senderShardOf e (Sender (st tx))")
    case None
    have "distinct (map fst (fst (groupTxsByShard_loop e (idx + 1) rest (m, st))))"
      using Cons.prems by (rule Cons.IH)
    with None show ?thesis
      by (simp add: groupTxsByShard_loop_skip del: groupTxsByShard_loop.simps)
  next
    case (Some s')
    let ?st = "st(tx := (st tx)\<lparr>Index := idx\<rparr>)"
    have "distinct (map fst (appendTx m s' tx))"
      using Cons.prems by (rule appendTx_distinct)
    then have "distinct (map fst (fst (groupTxsByShard_loop e (idx + 1) rest (appendTx m s' tx, ?st))))"
      by (rule Cons.IH)
    moreover have "groupTxsByShard_loop e idx (tx # rest) (m, st) =
        groupTxsByShard_loop e (idx + 1) rest (appendTx m s' tx, ?st)"
      using Some by (rule groupTxsByShard_loop_add)
    ultimately show ?thesis by simp
  qed
qed

lemma groupTxsByShard_groups:
  assumes "(s, g) \<in> set (fst (groupTxsByShard e txs st))"
  shows "g = filter (\<lambda>tx. senderShardOf e (Sender (st tx)) = Some s) txs"
proof -
  have d: "distinct (map fst (fst (groupTxsByShard e txs st)))"
    unfolding groupTxsByShard_def by (rule groupTxsByShard_loop_distinct) simp
  with assms have "map_of (fst (groupTxsByShard e txs st)) s = Some g" by simp
  then have "lookupGroup (fst (groupTxsByShard e txs st)) s = g"
    by (simp add: lookupGroup_def)
  then show ?thesis
    unfolding groupTxsByShard_def groupTxsByShard_loop_lookup by (simp add: lookupGroup_def)
qed

lemma SendMultipleTransactions_store:
  "snd (SendMultipleTransactions e rangeOrder txs st) = storeAfter e txs st"
  by (simp add: SendMultipleTransactions_def storeAfter_def txsToSend_def Let_def
        split: prod.splits)

lemma storeAfter_frame:
  "storeAfter e txs st p = (st p)\<lparr>Index := Index (storeAfter e txs st p)\<rparr>"
proof (cases "txsToSend e st txs = []")
  case True
  then show ?thesis by (simp add: storeAfter_def)
next
  case False
  then show ?thesis
    unfolding storeAfter_def groupTxsByShard_def
    using groupTxsByShard_loop_frame [of e 0 "txsToSend e st txs" "[]" st p] by simp
qed

lemma storeAfter_untouched:
  assumes "p \<notin> set (filter (\<lambda>tx. senderShardOf e (Sender (st tx)) \<noteq> None) (txsToSend e st txs))"
  shows "storeAfter e txs st p = st p"
proof (cases "txsToSend e st txs = []")
  case True
  then show ?thesis by (simp add: storeAfter_def)
next
  case False
  have "snd (groupTxsByShard_loop e 0 (txsToSend e st txs) ([], st)) p = st p"
    using assms by (rule groupTxsByShard_loop_untouched)
  with False show ?thesis by (simp add: storeAfter_def groupTxsByShard_def)
qed

lemma storeAfter_Index:
  assumes "i < length (txsToSend e st txs)"
    and "senderShardOf e (Sender (st (txsToSend e st txs ! i))) \<noteq> None"
    and "txsToSend e st txs ! i \<notin> set (drop (Suc i) (txsToSend e st txs))"
  shows "Index (storeAfter e txs st (txsToSend e st txs ! i)) = int i"
proof -
  from assms(1) have ne: "txsToSend e st txs \<noteq> []" by auto
  have "Index (snd (groupTxsByShard_loop e 0 (txsToSend e st txs) ([], st)) (txsToSend e st txs ! i))
      = 0 + int i"
    using assms by (rule groupTxsByShard_loop_Index)
  with ne show ?thesis by (simp add: storeAfter_def groupTxsByShard_def)
qed

text \<open>
  C6, as the code has it.  \<open>SendMultipleTransactions\<close> makes no copy: it writes
  \<open>Index\<close> through the caller's pointers.  After the call every transaction object of
  the caller has all its fields as before except \<open>Index\<close>, and an object that is not a
  validated transaction whose sender's shard is found is unchanged altogether.
\<close>

theorem SendMultipleTransactions_writes_Index_in_place:
  "snd (SendMultipleTransactions e rangeOrder txs st) p =
     (st p)\<lparr>Index := Index (snd (SendMultipleTransactions e rangeOrder txs st) p)\<rparr> \<and>
   (p \<notin> set (filter (\<lambda>tx. senderShardOf e (Sender (st tx)) \<noteq> None) (txsToSend e st txs)) \<longrightarrow>
      snd (SendMultipleTransactions e rangeOrder txs st) p = st p)"
  unfolding SendMultipleTransactions_store
  using storeAfter_frame [of e txs st p] storeAfter_untouched [of p e st txs]
  by blast

section \<open>Sending the groups\<close>

lemma mergeTxsHashes_inRange:
  "keysInRange g kvs \<Longrightarrow> mergeTxsHashes st g kvs h = Return (mergeEntries st g kvs h)"
  by (induction kvs arbitrary: h) (auto simp: keysInRange_def mergeEntries_def)

lemma SendMultipleTransactions_observers_find:
  "SendMultipleTransactions_observers e st g observers (n, h) =
     (case find (\<lambda>ob. accepted (postGroup e st g ob)) observers of
        None \<Rightarrow> Return (n, h)
      | Some ob \<Rightarrow>
          (case mergeTxsHashes st g (TxsHashes (snd (snd (postGroup e st g ob)))) h of
             Panic \<Rightarrow> Panic
           | Return h' \<Rightarrow> Return (n + NumOfTxs (snd (snd (postGroup e st g ob))), h')))"
  by (induction observers)
     (auto simp: accepted_def postGroup_def StatusOK_def split: prod.splits result.splits)

lemma SendMultipleTransactions_groups_step:
  assumes "hasObservers e (s, g)" and "replyInRange e st (s, g)"
  shows "SendMultipleTransactions_groups e st ((s, g) # rest) (n, h) =
     SendMultipleTransactions_groups e st rest
       (n + countOf (groupReply e st (s, g)), mergeGroup e st (s, g) h)"
proof -
  from assms(1) obtain observers where o: "GetObservers e s = Inr observers"
    by (auto simp: hasObservers_def split: sum.splits)
  show ?thesis
  proof (cases "find (\<lambda>ob. accepted (postGroup e st g ob)) observers")
    case None
    with o show ?thesis
      by (simp add: SendMultipleTransactions_observers_find groupReply_def countOf_def
            mergeGroup_def)
  next
    case (Some ob)
    with o assms(2) have "keysInRange g (TxsHashes (snd (snd (postGroup e st g ob))))"
      by (simp add: replyInRange_def groupReply_def)
    then have "mergeTxsHashes st g (TxsHashes (snd (snd (postGroup e st g ob)))) h =
        Return (mergeEntries st g (TxsHashes (snd (snd (postGroup e st g ob)))) h)"
      by (rule mergeTxsHashes_inRange)
    with o Some show ?thesis
      by (simp add: SendMultipleTransactions_observers_find groupReply_def countOf_def
            mergeGroup_def)
  qed
qed

lemma SendMultipleTransactions_groups_fold:
  assumes "list_all (hasObservers e) gs" and "list_all (replyInRange e st) gs"
  shows "SendMultipleTransactions_groups e st gs (n, h) =
     Return (\<lparr>NumOfTxs = n + sum_list (map (\<lambda>sg. countOf (groupReply e st sg)) gs),
              TxsHashes = fold (mergeGroup e st) gs h\<rparr>, None)"
  using assms
proof (induction gs arbitrary: n h)
  case Nil
  show ?case by simp
next
  case (Cons sg gs)
  obtain s g where sg: "sg = (s, g)" by (cases sg)
  from Cons.prems sg have a: "hasObservers e (s, g)" and b: "replyInRange e st (s, g)"
    and c: "list_all (hasObservers e) gs" and d: "list_all (replyInRange e st) gs"
    by simp_all
  have "SendMultipleTransactions_groups e st gs
          (n + countOf (groupReply e st (s, g)), mergeGroup e st (s, g) h) =
        Return (\<lparr>NumOfTxs = n + countOf (groupReply e st (s, g)) +
                    sum_list (map (\<lambda>sg. countOf (groupReply e st sg)) gs),
                 TxsHashes = fold (mergeGroup e st) gs (mergeGroup e st (s, g) h)\<rparr>, None)"
    using c d by (rule Cons.IH)
  then show ?case
    unfolding sg SendMultipleTransactions_groups_step [OF a b]
    by (simp add: add.assoc)
qed

lemma sum_list_insort_key:
  "sum_list (map f (insort_key k x xs)) = f x + sum_list (map f xs)"
  for f :: "'a \<Rightarrow> 64 word"
  by (induction xs) (auto simp: add.left_commute)

lemma sum_list_sort_key:
  "sum_list (map f (sort_key k xs)) = sum_list (map f xs)"
  for f :: "'a \<Rightarrow> 64 word"
  by (induction xs) (auto simp: sort_key_def sum_list_insort_key)

lemma set_visitOrder: "set (visitOrder rangeOrder m) = set m"
  by (simp add: visitOrder_def)

text \<open>
  Every enumeration of the groups is the visiting order of some ranking: that of the
  ranking by the places in the enumeration.
\<close>

lemma rankIn_positions:
  "distinct (map fst ys) \<Longrightarrow> map (\<lambda>sg. rankIn ys (fst sg)) ys = [0..<length ys]"
proof (induction ys)
  case Nil
  show ?case by simp
next
  case (Cons a ys)
  then have d: "distinct (map fst ys)" and n: "fst a \<notin> fst ` set ys" by simp_all
  have "map (\<lambda>sg. rankIn (a # ys) (fst sg)) ys = map (\<lambda>sg. Suc (rankIn ys (fst sg))) ys"
    using n by (auto simp: rankIn_def)
  also have "\<dots> = map Suc (map (\<lambda>sg. rankIn ys (fst sg)) ys)" by simp
  also have "\<dots> = map Suc [0..<length ys]" using d by (simp add: Cons.IH)
  also have "\<dots> = [Suc 0..<Suc (length ys)]" by (rule map_Suc_upt)
  finally have t: "map (\<lambda>sg. rankIn (a # ys) (fst sg)) ys = [Suc 0..<Suc (length ys)]" .
  have h: "rankIn (a # ys) (fst a) = 0" by (simp add: rankIn_def)
  have "[0..<length (a # ys)] = 0 # [Suc 0..<Suc (length ys)]"
    by (simp only: length_Cons upt_conv_Cons [of 0 "Suc (length ys)"] zero_less_Suc if_True)
  then show ?case by (simp only: list.map t h)
qed

lemma visitOrder_any_order:
  assumes "distinct (map fst m)" and "distinct ys" and "set ys = set m"
  shows "visitOrder (rankIn ys) m = ys"
proof -
  let ?f = "\<lambda>(shardID, groupOfTxs). rankIn ys shardID"
  have f: "?f = (\<lambda>sg. rankIn ys (fst sg))" by (auto simp: fun_eq_iff)
  from assms(1) have im: "inj_on fst (set m)" and dm: "distinct m"
    by (simp_all add: distinct_map)
  with assms(2,3) have dy: "distinct (map fst ys)" by (simp add: distinct_map)
  then have my: "map ?f ys = [0..<length ys]" unfolding f by (rule rankIn_positions)
  then have sy: "sorted (map ?f ys)" and dfy: "distinct (map ?f ys)" by simp_all
  from dfy have iy: "inj_on ?f (set ys)" by (simp add: distinct_map)
  have sx: "sorted (map ?f (sort_key ?f m))" by (rule sorted_sort_key)
  have ex: "set (sort_key ?f m) = set ys" using assms(3) by simp
  have "distinct (sort_key ?f m)" using dm by simp
  with iy ex have dx: "distinct (map ?f (sort_key ?f m))" by (simp add: distinct_map)
  from iy ex have "inj_on ?f (set (sort_key ?f m) \<union> set ys)" by simp
  then have "sort_key ?f m = ys"
    using sx dx sy dfy ex by (rule map_sorted_distinct_set_unique)
  then show ?thesis by (simp add: visitOrder_def)
qed

lemma SendMultipleTransactions_unfold:
  "txsToSend e st txs \<noteq> [] \<Longrightarrow>
     fst (SendMultipleTransactions e rangeOrder txs st) =
       SendMultipleTransactions_groups e (storeAfter e txs st)
         (visitOrder rangeOrder (txsByShardID e txs st)) (0, [])"
  by (simp add: SendMultipleTransactions_def storeAfter_def txsByShardID_def visitOrder_def
        txsToSend_def Let_def split: prod.splits)

lemma SendMultipleTransactions_result:
  assumes "txsToSend e st txs \<noteq> []"
    and "list_all (hasObservers e) (txsByShardID e txs st)"
    and "list_all (replyInRange e (storeAfter e txs st)) (txsByShardID e txs st)"
  shows "fst (SendMultipleTransactions e rangeOrder txs st) =
     Return
       (\<lparr>NumOfTxs =
            sum_list (map (\<lambda>sg. countOf (groupReply e (storeAfter e txs st) sg))
              (txsByShardID e txs st)),
         TxsHashes =
            fold (mergeGroup e (storeAfter e txs st))
              (visitOrder rangeOrder (txsByShardID e txs st)) []\<rparr>,
        None)"
proof -
  let ?gs = "visitOrder rangeOrder (txsByShardID e txs st)"
  from assms(2) have a: "list_all (hasObservers e) ?gs"
    by (simp add: list_all_iff set_visitOrder)
  from assms(3) have b: "list_all (replyInRange e (storeAfter e txs st)) ?gs"
    by (simp add: list_all_iff set_visitOrder)
  have "sum_list (map (\<lambda>sg. countOf (groupReply e (storeAfter e txs st) sg)) ?gs) =
      sum_list (map (\<lambda>sg. countOf (groupReply e (storeAfter e txs st) sg))
        (txsByShardID e txs st))"
    unfolding visitOrder_def by (rule sum_list_sort_key)
  then show ?thesis
    unfolding SendMultipleTransactions_unfold [OF assms(1)]
      SendMultipleTransactions_groups_fold [OF a b]
    by simp
qed

text \<open>Where the keys of the merged map come from.\<close>

lemma mergeEntries_keys:
  "keysInRange g kvs \<Longrightarrow>
     fst ` set (mergeEntries st g kvs h) \<subseteq> fst ` set h \<union> (\<lambda>p. Index (st p)) ` set g"
proof (induction kvs arbitrary: h)
  case Nil
  show ?case by (simp add: mergeEntries_def)
next
  case (Cons kv kvs)
  from Cons.prems have r: "0 \<le> fst kv" "fst kv < int (length g)" and k: "keysInRange g kvs"
    by (simp_all add: keysInRange_def)
  from r have "g ! nat (fst kv) \<in> set g" by simp
  then have "fst ` set (AList.update (Index (st (g ! nat (fst kv)))) (snd kv) h)
      \<subseteq> fst ` set h \<union> (\<lambda>p. Index (st p)) ` set g"
    by (auto simp: dom_update)
  moreover have "fst ` set (mergeEntries st g kvs
        (AList.update (Index (st (g ! nat (fst kv)))) (snd kv) h))
      \<subseteq> fst ` set (AList.update (Index (st (g ! nat (fst kv)))) (snd kv) h)
          \<union> (\<lambda>p. Index (st p)) ` set g"
    using k by (rule Cons.IH)
  moreover have "mergeEntries st g (kv # kvs) h =
      mergeEntries st g kvs (AList.update (Index (st (g ! nat (fst kv)))) (snd kv) h)"
    by (simp add: mergeEntries_def)
  ultimately show ?case by (simp only:) blast
qed

lemma mergeGroup_keys:
  assumes "replyInRange e st sg"
  shows "fst ` set (mergeGroup e st sg h) \<subseteq>
     fst ` set h \<union> (if groupReply e st sg = None then {} else (\<lambda>p. Index (st p)) ` set (snd sg))"
proof (cases "groupReply e st sg")
  case None
  then show ?thesis by (simp add: mergeGroup_def)
next
  case (Some txResponse)
  with assms have "keysInRange (snd sg) (TxsHashes txResponse)"
    by (simp add: replyInRange_def)
  from mergeEntries_keys [OF this, of st h] Some show ?thesis
    by (simp add: mergeGroup_def)
qed

lemma fold_mergeGroup_keys:
  assumes "list_all (replyInRange e st) gs"
    and "k \<in> fst ` set (fold (mergeGroup e st) gs h)"
  shows "k \<in> fst ` set h \<or>
     (\<exists>sg \<in> set gs. groupReply e st sg \<noteq> None \<and> (\<exists>p \<in> set (snd sg). k = Index (st p)))"
  using assms
proof (induction gs arbitrary: h)
  case Nil
  then show ?case by simp
next
  case (Cons sg gs)
  from Cons.prems(1) have a: "replyInRange e st sg" and b: "list_all (replyInRange e st) gs"
    by simp_all
  from Cons.prems(2) have "k \<in> fst ` set (fold (mergeGroup e st) gs (mergeGroup e st sg h))"
    by simp
  with b have "k \<in> fst ` set (mergeGroup e st sg h) \<or>
     (\<exists>sg \<in> set gs. groupReply e st sg \<noteq> None \<and> (\<exists>p \<in> set (snd sg). k = Index (st p)))"
    by (rule Cons.IH)
  then show ?case
  proof
    assume "k \<in> fst ` set (mergeGroup e st sg h)"
    with mergeGroup_keys [OF a, of h] have
      "k \<in> fst ` set h \<or> (groupReply e st sg \<noteq> None \<and> k \<in> (\<lambda>p. Index (st p)) ` set (snd sg))"
      by (auto split: if_splits)
    then show ?thesis by auto
  next
    assume "\<exists>sg \<in> set gs. groupReply e st sg \<noteq> None \<and> (\<exists>p \<in> set (snd sg). k = Index (st p))"
    then show ?thesis by auto
  qed
qed

text \<open>After grouping, \<open>Index\<close> tells the grouped transactions apart.\<close>

lemma last_occurrence:
  "p \<in> set xs \<Longrightarrow> \<exists>i < length xs. xs ! i = p \<and> p \<notin> set (drop (Suc i) xs)"
proof -
  assume "p \<in> set xs"
  then obtain ys zs where x: "xs = ys @ p # zs" and n: "p \<notin> set zs"
    by (auto dest: split_list_last)
  have "length ys < length xs" using x by simp
  moreover have "xs ! length ys = p" using x by simp
  moreover have "drop (Suc (length ys)) xs = zs" using x by simp
  ultimately show ?thesis using n by metis
qed

lemma storeAfter_Index_position:
  assumes "p \<in> set (txsToSend e st txs)" and "senderShardOf e (Sender (st p)) \<noteq> None"
  shows "\<exists>i < length (txsToSend e st txs).
           txsToSend e st txs ! i = p \<and> Index (storeAfter e txs st p) = int i"
proof -
  from last_occurrence [OF assms(1)] obtain i where
    i: "i < length (txsToSend e st txs)" and p: "txsToSend e st txs ! i = p" and
    l: "p \<notin> set (drop (Suc i) (txsToSend e st txs))"
    by blast
  have "Index (storeAfter e txs st (txsToSend e st txs ! i)) = int i"
    using i assms(2) l unfolding p [symmetric] by (rule storeAfter_Index)
  with i p show ?thesis by auto
qed

lemma txsByShardID_member:
  assumes "sg \<in> set (txsByShardID e txs st)" and "p \<in> set (snd sg)"
  shows "p \<in> set (txsToSend e st txs) \<and> senderShardOf e (Sender (st p)) = Some (fst sg)"
proof -
  from assms(1) have "(fst sg, snd sg) \<in> set (fst (groupTxsByShard e (txsToSend e st txs) st))"
    by (simp add: txsByShardID_def)
  then have "snd sg = filter (\<lambda>tx. senderShardOf e (Sender (st tx)) = Some (fst sg))
      (txsToSend e st txs)"
    by (rule groupTxsByShard_groups)
  with assms(2) show ?thesis by (metis (mono_tags, lifting) mem_Collect_eq set_filter)
qed

lemma txsByShardID_distinct: "distinct (map fst (txsByShardID e txs st))"
  unfolding txsByShardID_def groupTxsByShard_def
  by (rule groupTxsByShard_loop_distinct) simp

lemma failed_group_no_entry:
  assumes r: "list_all (replyInRange e (storeAfter e txs st)) (txsByShardID e txs st)"
    and sg: "sg \<in> set (txsByShardID e txs st)"
    and f: "groupReply e (storeAfter e txs st) sg = None"
    and p: "p \<in> set (snd sg)"
  shows "Index (storeAfter e txs st p) \<notin>
     fst ` set (fold (mergeGroup e (storeAfter e txs st))
                  (visitOrder rangeOrder (txsByShardID e txs st)) [])"
proof
  let ?st = "storeAfter e txs st"
  let ?gs = "visitOrder rangeOrder (txsByShardID e txs st)"
  assume k: "Index (?st p) \<in> fst ` set (fold (mergeGroup e ?st) ?gs [])"
  from r have "list_all (replyInRange e ?st) ?gs"
    by (simp add: list_all_iff set_visitOrder)
  from fold_mergeGroup_keys [OF this k] obtain sg' q where
    sg': "sg' \<in> set (txsByShardID e txs st)" and ok: "groupReply e ?st sg' \<noteq> None" and
    q: "q \<in> set (snd sg')" and eq: "Index (?st p) = Index (?st q)"
    by (auto simp: set_visitOrder)
  from txsByShardID_member [OF sg p] have pm: "p \<in> set (txsToSend e st txs)"
    and ps: "senderShardOf e (Sender (st p)) = Some (fst sg)" by simp_all
  from txsByShardID_member [OF sg' q] have qm: "q \<in> set (txsToSend e st txs)"
    and qs: "senderShardOf e (Sender (st q)) = Some (fst sg')" by simp_all
  from storeAfter_Index_position [OF pm] ps obtain i where
    i: "txsToSend e st txs ! i = p" "Index (?st p) = int i" by auto
  from storeAfter_Index_position [OF qm] qs obtain j where
    j: "txsToSend e st txs ! j = q" "Index (?st q) = int j" by auto
  from i j eq have "p = q" by simp
  with ps qs have "fst sg = fst sg'" by simp
  with sg sg' txsByShardID_distinct [of e txs st] have "sg = sg'"
    by (metis eq_key_imp_eq_value prod.collapse)
  with f ok show False by simp
qed

lemma SendMultipleTransactions_groups_no_error:
  "list_all (hasObservers e) gs \<Longrightarrow>
     SendMultipleTransactions_groups e st gs acc \<noteq> Return (r, Some err)"
proof (induction gs arbitrary: acc)
  case Nil
  show ?case by (cases acc) simp
next
  case (Cons sg gs)
  obtain s g where sg: "sg = (s, g)" by (cases sg)
  obtain n h where acc: "acc = (n, h)" by (cases acc)
  from Cons.prems sg have h: "hasObservers e (s, g)" and rest: "list_all (hasObservers e) gs"
    by simp_all
  from h obtain observers where o: "GetObservers e s = Inr observers"
    by (auto simp: hasObservers_def split: sum.splits)
  show ?case
  proof (cases "SendMultipleTransactions_observers e st g observers (n, h)")
    case Panic
    with o show ?thesis unfolding sg acc by simp
  next
    case (Return acc')
    with o Cons.IH [OF rest, of acc'] show ?thesis unfolding sg acc by simp
  qed
qed

text \<open>
  What the call returns when the replies are in range.  When at least one transaction
  validates and \<open>GetObservers\<close> succeeds for the shard of every group,
  \<open>SendMultipleTransactions\<close> never returns an error, also when some or all groups find
  no observer that accepts their post.  With replies in range it returns a nil error
  beside this result: \<open>NumOfTxs\<close> is the sum of the counts reported for the groups that
  were accepted (a group that was not counts 0), \<open>TxsHashes\<close> is what the accepted
  groups' replies merge to, and no transaction of a group that was not accepted has an
  entry in it.
\<close>

theorem SendMultipleTransactions_ignores_exhausted_groups:
  assumes "txsToSend e st txs \<noteq> []"
    and "list_all (hasObservers e) (txsByShardID e txs st)"
  shows "fst (SendMultipleTransactions e rangeOrder txs st) \<noteq> Return (r, Some err) \<and>
   (list_all (replyInRange e (storeAfter e txs st)) (txsByShardID e txs st) \<longrightarrow>
      fst (SendMultipleTransactions e rangeOrder txs st) =
        Return
          (\<lparr>NumOfTxs =
               sum_list (map (\<lambda>sg. countOf (groupReply e (storeAfter e txs st) sg))
                 (txsByShardID e txs st)),
            TxsHashes =
               fold (mergeGroup e (storeAfter e txs st))
                 (visitOrder rangeOrder (txsByShardID e txs st)) []\<rparr>,
           None) \<and>
      (\<forall>sg p. sg \<in> set (txsByShardID e txs st) \<and>
              groupReply e (storeAfter e txs st) sg = None \<and> p \<in> set (snd sg) \<longrightarrow>
         Index (storeAfter e txs st p) \<notin>
           fst ` set (fold (mergeGroup e (storeAfter e txs st))
                        (visitOrder rangeOrder (txsByShardID e txs st)) [])))"
proof (intro conjI impI)
  from assms(2) have "list_all (hasObservers e) (visitOrder rangeOrder (txsByShardID e txs st))"
    by (simp add: list_all_iff set_visitOrder)
  then show "fst (SendMultipleTransactions e rangeOrder txs st) \<noteq> Return (r, Some err)"
    unfolding SendMultipleTransactions_unfold [OF assms(1)]
    by (rule SendMultipleTransactions_groups_no_error)
next
  assume r: "list_all (replyInRange e (storeAfter e txs st)) (txsByShardID e txs st)"
  show "fst (SendMultipleTransactions e rangeOrder txs st) =
        Return
          (\<lparr>NumOfTxs =
               sum_list (map (\<lambda>sg. countOf (groupReply e (storeAfter e txs st) sg))
                 (txsByShardID e txs st)),
            TxsHashes =
               fold (mergeGroup e (storeAfter e txs st))
                 (visitOrder rangeOrder (txsByShardID e txs st)) []\<rparr>,
           None)"
    using assms r by (rule SendMultipleTransactions_result)
next
  assume r: "list_all (replyInRange e (storeAfter e txs st)) (txsByShardID e txs st)"
  show "\<forall>sg p. sg \<in> set (txsByShardID e txs st) \<and>
              groupReply e (storeAfter e txs st) sg = None \<and> p \<in> set (snd sg) \<longrightarrow>
         Index (storeAfter e txs st p) \<notin>
           fst ` set (fold (mergeGroup e (storeAfter e txs st))
                        (visitOrder rangeOrder (txsByShardID e txs st)) [])"
    using failed_group_no_entry [OF r] by blast
qed

section \<open>The hashes of an accepted group\<close>

lemma mergeEntries_other:
  "K \<notin> (\<lambda>kv. Index (st (g ! nat (fst kv)))) ` set kvs \<Longrightarrow>
     map_of (mergeEntries st g kvs h) K = map_of h K"
proof (induction kvs arbitrary: h)
  case Nil
  show ?case by (simp add: mergeEntries_def)
next
  case (Cons kv kvs)
  from Cons.prems have ne: "Index (st (g ! nat (fst kv))) \<noteq> K"
    and r: "K \<notin> (\<lambda>kv. Index (st (g ! nat (fst kv)))) ` set kvs" by auto
  have "mergeEntries st g (kv # kvs) h =
      mergeEntries st g kvs (AList.update (Index (st (g ! nat (fst kv)))) (snd kv) h)"
    by (simp add: mergeEntries_def)
  moreover have "map_of (mergeEntries st g kvs
        (AList.update (Index (st (g ! nat (fst kv)))) (snd kv) h)) K =
      map_of (AList.update (Index (st (g ! nat (fst kv)))) (snd kv) h) K"
    using r by (rule Cons.IH)
  ultimately show ?case using ne by (simp add: update_conv')
qed

lemma mergeEntries_entry:
  assumes "keysInRange g kvs" and "distinct (map fst kvs)" and "distinct g"
    and "inj_on (\<lambda>p. Index (st p)) (set g)" and "(k, hash) \<in> set kvs"
  shows "map_of (mergeEntries st g kvs h) (Index (st (g ! nat k))) = Some hash"
  using assms(1,2,5)
proof (induction kvs arbitrary: h)
  case Nil
  then show ?case by simp
next
  case (Cons kv kvs)
  have step: "mergeEntries st g (kv # kvs) h =
      mergeEntries st g kvs (AList.update (Index (st (g ! nat (fst kv)))) (snd kv) h)"
    by (simp add: mergeEntries_def)
  from Cons.prems(1) have rk: "keysInRange g kvs" by (simp add: keysInRange_def)
  from Cons.prems(2) have dk: "distinct (map fst kvs)" by simp
  show ?case
  proof (cases "(k, hash) \<in> set kvs")
    case True
    with rk dk show ?thesis unfolding step by (rule Cons.IH)
  next
    case False
    with Cons.prems(3) have kv: "kv = (k, hash)" by simp
    from Cons.prems(1) kv have "0 \<le> k" "k < int (length g)" by (simp_all add: keysInRange_def)
    then have k: "0 \<le> k" "nat k < length g" by linarith+
    have "Index (st (g ! nat k)) \<notin> (\<lambda>kv. Index (st (g ! nat (fst kv)))) ` set kvs"
    proof
      assume "Index (st (g ! nat k)) \<in> (\<lambda>kv. Index (st (g ! nat (fst kv)))) ` set kvs"
      then obtain kv' where m: "kv' \<in> set kvs" and
        e: "Index (st (g ! nat k)) = Index (st (g ! nat (fst kv')))" by auto
      from rk m have "0 \<le> fst kv'" "fst kv' < int (length g)"
        by (simp_all add: keysInRange_def list_all_iff)
      then have k': "0 \<le> fst kv'" "nat (fst kv') < length g" by linarith+
      from assms(4) e k k' have "g ! nat k = g ! nat (fst kv')"
        by (auto dest: inj_onD)
      with assms(3) k k' have "nat k = nat (fst kv')"
        by (simp add: nth_eq_iff_index_eq)
      with k k' have "fst kv' = k" by simp
      with m Cons.prems(2) kv show False by (auto simp: image_iff)
    qed
    then have "map_of (mergeEntries st g kvs (AList.update (Index (st (g ! nat k))) hash h))
        (Index (st (g ! nat k))) =
      map_of (AList.update (Index (st (g ! nat k))) hash h) (Index (st (g ! nat k)))"
      by (rule mergeEntries_other)
    moreover have "mergeEntries st g ((k, hash) # kvs) h =
        mergeEntries st g kvs (AList.update (Index (st (g ! nat k))) hash h)"
      by (simp add: mergeEntries_def)
    ultimately show ?thesis unfolding kv by (simp add: update_conv')
  qed
qed

lemma mergeGroup_other:
  assumes "replyInRange e st sg" and "K \<notin> (\<lambda>p. Index (st p)) ` set (snd sg)"
  shows "map_of (mergeGroup e st sg h) K = map_of h K"
proof (cases "groupReply e st sg")
  case None
  then show ?thesis by (simp add: mergeGroup_def)
next
  case (Some txResponse)
  with assms(1) have r: "keysInRange (snd sg) (TxsHashes txResponse)"
    by (simp add: replyInRange_def)
  have "K \<notin> (\<lambda>kv. Index (st (snd sg ! nat (fst kv)))) ` set (TxsHashes txResponse)"
  proof
    assume "K \<in> (\<lambda>kv. Index (st (snd sg ! nat (fst kv)))) ` set (TxsHashes txResponse)"
    then obtain kv where m: "kv \<in> set (TxsHashes txResponse)"
      and k: "K = Index (st (snd sg ! nat (fst kv)))" by auto
    from r m have "0 \<le> fst kv" "fst kv < int (length (snd sg))"
      by (simp_all add: keysInRange_def list_all_iff)
    then have "nat (fst kv) < length (snd sg)" by linarith
    then have "snd sg ! nat (fst kv) \<in> set (snd sg)" by simp
    with k assms(2) show False by auto
  qed
  then have "map_of (mergeEntries st (snd sg) (TxsHashes txResponse) h) K = map_of h K"
    by (rule mergeEntries_other)
  with Some show ?thesis by (simp add: mergeGroup_def)
qed

lemma fold_mergeGroup_other:
  assumes "list_all (replyInRange e st) gs"
    and "\<forall>sg \<in> set gs. K \<notin> (\<lambda>p. Index (st p)) ` set (snd sg)"
  shows "map_of (fold (mergeGroup e st) gs h) K = map_of h K"
  using assms
proof (induction gs arbitrary: h)
  case Nil
  show ?case by simp
next
  case (Cons sg gs)
  from Cons.prems have a: "replyInRange e st sg" and b: "list_all (replyInRange e st) gs"
    and c: "K \<notin> (\<lambda>p. Index (st p)) ` set (snd sg)"
    and d: "\<forall>sg \<in> set gs. K \<notin> (\<lambda>p. Index (st p)) ` set (snd sg)"
    by simp_all
  have "map_of (fold (mergeGroup e st) gs (mergeGroup e st sg h)) K =
      map_of (mergeGroup e st sg h) K"
    using b d by (rule Cons.IH)
  with mergeGroup_other [OF a c, of h] show ?case by simp
qed

lemma storeAfter_Index_inj:
  assumes "p \<in> set (txsToSend e st txs)" and "senderShardOf e (Sender (st p)) \<noteq> None"
    and "q \<in> set (txsToSend e st txs)" and "senderShardOf e (Sender (st q)) \<noteq> None"
    and "Index (storeAfter e txs st p) = Index (storeAfter e txs st q)"
  shows "p = q"
proof -
  from storeAfter_Index_position [OF assms(1,2)] obtain i where
    i: "txsToSend e st txs ! i = p" "Index (storeAfter e txs st p) = int i" by auto
  from storeAfter_Index_position [OF assms(3,4)] obtain j where
    j: "txsToSend e st txs ! j = q" "Index (storeAfter e txs st q) = int j" by auto
  from i j assms(5) show ?thesis by simp
qed

lemma group_Index_inj:
  assumes "sg \<in> set (txsByShardID e txs st)"
  shows "inj_on (\<lambda>p. Index (storeAfter e txs st p)) (set (snd sg))"
proof (rule inj_onI)
  fix p q
  assume p: "p \<in> set (snd sg)" and q: "q \<in> set (snd sg)"
    and e: "Index (storeAfter e txs st p) = Index (storeAfter e txs st q)"
  from txsByShardID_member [OF assms p] txsByShardID_member [OF assms q] e
  show "p = q" by (auto intro: storeAfter_Index_inj)
qed

lemma other_group_Index:
  assumes "sg \<in> set (txsByShardID e txs st)" and "sg' \<in> set (txsByShardID e txs st)"
    and "sg' \<noteq> sg" and "p \<in> set (snd sg)"
  shows "Index (storeAfter e txs st p) \<notin> (\<lambda>q. Index (storeAfter e txs st q)) ` set (snd sg')"
proof
  assume "Index (storeAfter e txs st p) \<in> (\<lambda>q. Index (storeAfter e txs st q)) ` set (snd sg')"
  then obtain q where q: "q \<in> set (snd sg')"
    and e: "Index (storeAfter e txs st p) = Index (storeAfter e txs st q)" by auto
  from txsByShardID_member [OF assms(1,4)] have pm: "p \<in> set (txsToSend e st txs)"
    and ps: "senderShardOf e (Sender (st p)) = Some (fst sg)" by simp_all
  from txsByShardID_member [OF assms(2) q] have qm: "q \<in> set (txsToSend e st txs)"
    and qs: "senderShardOf e (Sender (st q)) = Some (fst sg')" by simp_all
  from pm qm ps qs e have "p = q" by (auto intro: storeAfter_Index_inj)
  with ps qs have "fst sg = fst sg'" by simp
  with assms(1,2) txsByShardID_distinct [of e txs st] have "sg = sg'"
    by (metis eq_key_imp_eq_value prod.collapse)
  with assms(3) show False by simp
qed

lemma fold_mergeGroup_entry:
  assumes r: "list_all (replyInRange e (storeAfter e txs st)) (txsByShardID e txs st)"
    and d: "distinct (txsToSend e st txs)"
    and sg: "sg \<in> set (txsByShardID e txs st)"
    and rep: "groupReply e (storeAfter e txs st) sg = Some txResponse"
    and dk: "distinct (map fst (TxsHashes txResponse))"
    and kh: "(k, hash) \<in> set (TxsHashes txResponse)"
  shows "map_of (fold (mergeGroup e (storeAfter e txs st))
                   (visitOrder rangeOrder (txsByShardID e txs st)) [])
           (Index (storeAfter e txs st (snd sg ! nat k))) = Some hash"
proof -
  let ?st = "storeAfter e txs st"
  let ?gs = "visitOrder rangeOrder (txsByShardID e txs st)"
  let ?K = "Index (?st (snd sg ! nat k))"
  from r have rv: "list_all (replyInRange e ?st) ?gs"
    by (simp add: list_all_iff set_visitOrder)
  from r sg have rsg: "replyInRange e ?st sg" by (simp add: list_all_iff)
  with rep have kr: "keysInRange (snd sg) (TxsHashes txResponse)"
    by (simp add: replyInRange_def)
  with kh have "0 \<le> k" "k < int (length (snd sg))"
    by (auto simp: keysInRange_def list_all_iff)
  then have k: "0 \<le> k" "nat k < length (snd sg)" by linarith+
  then have km: "snd sg ! nat k \<in> set (snd sg)" by simp
  have dv: "distinct (map fst ?gs)"
    unfolding visitOrder_def using txsByShardID_distinct [of e txs st]
    by (metis (no_types, lifting) distinct_map distinct_sort set_sort inj_on_subset
          subset_refl)
  then have dgs: "distinct ?gs" by (rule distinct_map [THEN iffD1, THEN conjunct1])
  from sg have "sg \<in> set ?gs" by (simp add: set_visitOrder)
  then obtain pre post where split: "?gs = pre @ sg # post" by (auto dest: split_list)
  with dgs have npost: "sg \<notin> set post" by auto
  from split have post_sub: "set post \<subseteq> set (txsByShardID e txs st)"
    using set_visitOrder [of rangeOrder "txsByShardID e txs st"] by auto
  from rv split have rpost: "list_all (replyInRange e ?st) post" by simp
  have other: "\<forall>sg' \<in> set post. ?K \<notin> (\<lambda>p. Index (?st p)) ` set (snd sg')"
  proof
    fix sg'
    assume m: "sg' \<in> set post"
    with npost have ne: "sg' \<noteq> sg" by auto
    from m post_sub have "sg' \<in> set (txsByShardID e txs st)" by auto
    with sg show "?K \<notin> (\<lambda>p. Index (?st p)) ` set (snd sg')"
      using ne km by (rule other_group_Index)
  qed
  have dg: "distinct (snd sg)"
  proof -
    from sg have "(fst sg, snd sg) \<in> set (fst (groupTxsByShard e (txsToSend e st txs) st))"
      by (simp add: txsByShardID_def)
    then have "snd sg = filter (\<lambda>tx. senderShardOf e (Sender (st tx)) = Some (fst sg))
        (txsToSend e st txs)"
      by (rule groupTxsByShard_groups)
    with d show ?thesis by (metis distinct_filter)
  qed
  have here: "map_of (mergeGroup e ?st sg h) ?K = Some hash" for h
    using mergeEntries_entry [OF kr dk dg group_Index_inj [OF sg] kh, of h] rep
    by (simp add: mergeGroup_def)
  have "fold (mergeGroup e ?st) ?gs [] =
      fold (mergeGroup e ?st) post (mergeGroup e ?st sg (fold (mergeGroup e ?st) pre []))"
    unfolding split by simp
  then show ?thesis
    using fold_mergeGroup_other [OF rpost other] here by simp
qed

lemma txsToSend_all_valid:
  "list_all (\<lambda>tx. checkTransactionFields e (st tx) = None) txs \<Longrightarrow> txsToSend e st txs = txs"
  by (simp add: txsToSend_def list_all_iff)

lemma hash_at_validated_position:
  assumes "list_all (hasObservers e) (txsByShardID e txs st)"
    and "list_all (replyInRange e (storeAfter e txs st)) (txsByShardID e txs st)"
    and "distinct (txsToSend e st txs)"
    and "sg \<in> set (txsByShardID e txs st)"
    and "groupReply e (storeAfter e txs st) sg = Some txResponse"
    and "distinct (map fst (TxsHashes txResponse))"
    and "(k, hash) \<in> set (TxsHashes txResponse)"
    and "i < length (txsToSend e st txs)"
    and "txsToSend e st txs ! i = snd sg ! nat k"
  shows "Index (snd (SendMultipleTransactions e rangeOrder txs st) (txsToSend e st txs ! i)) = int i \<and>
     (\<exists>r. fst (SendMultipleTransactions e rangeOrder txs st) = Return (r, None) \<and>
          map_of (TxsHashes r) (int i) = Some hash)"
proof -
  let ?st = "storeAfter e txs st"
  from assms(8) have ne: "txsToSend e st txs \<noteq> []" by auto
  from assms(2,4) have "replyInRange e ?st sg" by (simp add: list_all_iff)
  with assms(5) have "keysInRange (snd sg) (TxsHashes txResponse)"
    by (simp add: replyInRange_def)
  with assms(7) have "0 \<le> k" "k < int (length (snd sg))"
    by (auto simp: keysInRange_def list_all_iff)
  then have "nat k < length (snd sg)" by linarith
  then have "snd sg ! nat k \<in> set (snd sg)" by simp
  from txsByShardID_member [OF assms(4) this] assms(9)
  have g: "senderShardOf e (Sender (st (txsToSend e st txs ! i))) \<noteq> None" by simp
  from assms(3,8) have "txsToSend e st txs ! i \<notin> set (drop (Suc i) (txsToSend e st txs))"
    by (metis Cons_nth_drop_Suc append_take_drop_id distinct.simps(2) distinct_append)
  with assms(8) g have idx: "Index (?st (txsToSend e st txs ! i)) = int i"
    by (rule storeAfter_Index)
  have "map_of (fold (mergeGroup e ?st) (visitOrder rangeOrder (txsByShardID e txs st)) [])
      (Index (?st (snd sg ! nat k))) = Some hash"
    using assms(2,3,4,5,6,7) by (rule fold_mergeGroup_entry)
  with idx assms(9) have "map_of (fold (mergeGroup e ?st)
      (visitOrder rangeOrder (txsByShardID e txs st)) []) (int i) = Some hash"
    by simp
  with SendMultipleTransactions_result [OF ne assms(1,2), of rangeOrder] idx show ?thesis
    by (simp add: SendMultipleTransactions_store)
qed

text \<open>
  When every transaction of the input validates and no pointer occurs twice in it, the
  transaction at position \<open>i\<close> of the client's array gets \<open>Index\<close> \<open>i\<close>; and when its
  group is accepted and the reply (a map, so with distinct keys, and in range) reports
  \<open>hash\<close> for its position in the group, the result maps \<open>i\<close> to \<open>hash\<close>.
\<close>

theorem SendMultipleTransactions_hash_by_Index:
  assumes "list_all (\<lambda>tx. checkTransactionFields e (st tx) = None) txs"
    and "distinct txs"
    and "list_all (hasObservers e) (txsByShardID e txs st)"
    and "list_all (replyInRange e (storeAfter e txs st)) (txsByShardID e txs st)"
    and "sg \<in> set (txsByShardID e txs st)"
    and "groupReply e (storeAfter e txs st) sg = Some txResponse"
    and "distinct (map fst (TxsHashes txResponse))"
    and "(k, hash) \<in> set (TxsHashes txResponse)"
    and "i < length txs"
    and "txs ! i = snd sg ! nat k"
  shows "Index (snd (SendMultipleTransactions e rangeOrder txs st) (txs ! i)) = int i \<and>
     (\<exists>r. fst (SendMultipleTransactions e rangeOrder txs st) = Return (r, None) \<and>
          map_of (TxsHashes r) (int i) = Some hash)"
proof -
  from assms(1) have v: "txsToSend e st txs = txs" by (rule txsToSend_all_valid)
  have d: "distinct (txsToSend e st txs)" unfolding v by (rule assms(2))
  have l: "i < length (txsToSend e st txs)" unfolding v by (rule assms(9))
  have p: "txsToSend e st txs ! i = snd sg ! nat k" unfolding v by (rule assms(10))
  from hash_at_validated_position [OF assms(3,4) d assms(5,6,7,8) l p, of rangeOrder]
  show ?thesis unfolding v .
qed

section \<open>Bulk sending: examples\<close>

lemma bulk_check:
  "checkTransactionFields bulkEnv (bulkStore 10) \<noteq> None"
  "checkTransactionFields bulkEnv (bulkStore 11) = None"
  "checkTransactionFields bulkEnv (bulkStore 12) = None"
  by (simp_all add: checkTransactionFields_def bulkEnv_def bulkStore_def demoTx_def bobTx_def
        demo_defs)

lemma bulk_txsToSend:
  "txsToSend bulkEnv bulkStore [10, 11] = [11]"
  "txsToSend bulkEnv bulkStore [11, 12] = [11, 12]"
  by (simp_all add: txsToSend_def bulk_check)

lemma bulk_group:
  "groupTxsByShard bulkEnv [11] bulkStore = ([(0, [11])], bulkStore(11 := demoTx))"
  "groupTxsByShard bulkEnv [11, 12] bulkStore =
     ([(0, [11]), (1, [12])], bulkStore(11 := demoTx, 12 := bobTx\<lparr>Index := 1\<rparr>))"
  by (simp_all add: groupTxsByShard_def bulkEnv_def bulkStore_def demoTx_def bobTx_def demo_defs)

lemma bulk_txsByShardID:
  "txsByShardID bulkEnv [11, 12] bulkStore = [(0, [11]), (1, [12])]"
  by (simp add: txsByShardID_def bulk_txsToSend bulk_group)

lemma bulk_storeAfter:
  "storeAfter bulkEnv [11, 12] bulkStore =
     bulkStore(11 := demoTx, 12 := bobTx\<lparr>Index := 1\<rparr>)"
  by (simp add: storeAfter_def bulk_txsToSend bulk_group)

lemma bulk_GetObservers:
  "GetObservers bulkEnv 0 = Inr [obsA, obsB, obsC]"
  "GetObservers bulkEnv 1 = Inr [obsX, obsY]"
  by (simp_all add: bulkEnv_def demoEnv_def demoGetObservers_def)

lemma bulk_postGroup:
  "postGroup bulkEnv st g obsA = (404, notFound, \<lparr>NumOfTxs = 0, TxsHashes = []\<rparr>)"
  "postGroup bulkEnv st g obsB = (200, None, \<lparr>NumOfTxs = 1, TxsHashes = [(0, ''h1'')]\<rparr>)"
  "postGroup bulkEnv st g obsX = (404, notFound, \<lparr>NumOfTxs = 0, TxsHashes = []\<rparr>)"
  "postGroup bulkEnv st g obsY = (404, notFound, \<lparr>NumOfTxs = 0, TxsHashes = []\<rparr>)"
  by (simp_all add: postGroup_def bulkEnv_def demo_defs)

lemma bulk_groupReply:
  "groupReply bulkEnv st (0, g) = Some \<lparr>NumOfTxs = 1, TxsHashes = [(0, ''h1'')]\<rparr>"
  "groupReply bulkEnv st (1, g) = None"
  by (simp_all add: groupReply_def bulk_GetObservers bulk_postGroup accepted_def notFound_def)

theorem SendMultipleTransactions_ignores_exhausted_groups_witness:
  "fst (SendMultipleTransactions bulkEnv unat [11, 12] bulkStore) =
     Return (\<lparr>NumOfTxs = 1, TxsHashes = [(0, ''h1'')]\<rparr>, None) \<and>
   Index (snd (SendMultipleTransactions bulkEnv unat [11, 12] bulkStore) 12) = 1"
proof
  have a: "txsToSend bulkEnv bulkStore [11, 12] \<noteq> []"
    by (simp add: bulk_txsToSend)
  have b: "list_all (hasObservers bulkEnv) (txsByShardID bulkEnv [11, 12] bulkStore)"
    by (simp add: bulk_txsByShardID hasObservers_def bulk_GetObservers)
  have c: "list_all (replyInRange bulkEnv (storeAfter bulkEnv [11, 12] bulkStore))
             (txsByShardID bulkEnv [11, 12] bulkStore)"
    by (simp add: bulk_txsByShardID replyInRange_def bulk_groupReply keysInRange_def)
  have i: "Index demoTx = 0" by (simp add: demoTx_def)
  from SendMultipleTransactions_ignores_exhausted_groups [OF a b, of unat] c
  show "fst (SendMultipleTransactions bulkEnv unat [11, 12] bulkStore) =
     Return (\<lparr>NumOfTxs = 1, TxsHashes = [(0, ''h1'')]\<rparr>, None)"
    by (simp add: bulk_txsByShardID bulk_storeAfter bulk_groupReply countOf_def visitOrder_def
          mergeGroup_def mergeEntries_def i)
next
  show "Index (snd (SendMultipleTransactions bulkEnv unat [11, 12] bulkStore) 12) = 1"
    by (simp add: SendMultipleTransactions_store bulk_storeAfter)
qed

theorem SendMultipleTransactions_hash_by_Index_witness:
  "Index (snd (SendMultipleTransactions bulkEnv unat [11, 12] bulkStore) 11) = 0 \<and>
   (\<exists>r. fst (SendMultipleTransactions bulkEnv unat [11, 12] bulkStore) = Return (r, None) \<and>
        map_of (TxsHashes r) 0 = Some ''h1'')"
proof -
  have v: "list_all (\<lambda>tx. checkTransactionFields bulkEnv (bulkStore tx) = None) [11, 12]"
    by (simp add: bulk_check)
  have c: "distinct [11 :: ref, 12]" by simp
  have a: "list_all (hasObservers bulkEnv) (txsByShardID bulkEnv [11, 12] bulkStore)"
    by (simp add: bulk_txsByShardID hasObservers_def bulk_GetObservers)
  have b: "list_all (replyInRange bulkEnv (storeAfter bulkEnv [11, 12] bulkStore))
             (txsByShardID bulkEnv [11, 12] bulkStore)"
    by (simp add: bulk_txsByShardID replyInRange_def bulk_groupReply keysInRange_def)
  have d: "(0, [11]) \<in> set (txsByShardID bulkEnv [11, 12] bulkStore)"
    by (simp add: bulk_txsByShardID)
  have f: "distinct (map fst (TxsHashes \<lparr>NumOfTxs = 1, TxsHashes = [(0, ''h1'')]\<rparr>))"
    by simp
  have g: "(0, ''h1'') \<in> set (TxsHashes \<lparr>NumOfTxs = 1, TxsHashes = [(0, ''h1'')]\<rparr>)"
    by simp
  have h: "0 < length [11 :: ref, 12]" by simp
  have i: "[11 :: ref, 12] ! 0 = snd (0 :: shard, [11 :: ref]) ! nat 0" by simp
  from SendMultipleTransactions_hash_by_Index [OF v c a b d bulk_groupReply(1) f g h i, of unat]
  show ?thesis by simp
qed

text \<open>
  The caller's transaction at reference 12 has \<open>Index\<close> 0 before the call and 1 after it.
\<close>

theorem SendMultipleTransactions_mutates_input_counterexample:
  "Index (bulkStore 12) = 0 \<and>
   Index (snd (SendMultipleTransactions bulkEnv unat [11, 12] bulkStore) 12) = 1"
proof -
  have f: "filter (\<lambda>currentTx. checkTransactionFields bulkEnv (bulkStore currentTx) = None) [11, 12]
      = [11, 12]"
    using bulk_txsToSend(2) by (simp add: txsToSend_def)
  have "Index (snd (SendMultipleTransactions bulkEnv unat [11, 12] bulkStore) 12) = 1"
    unfolding SendMultipleTransactions_def f Let_def
    by (simp add: bulk_group)
  moreover have "Index (bulkStore 12) = 0"
    by (simp add: bulkStore_def bobTx_def)
  ultimately show ?thesis by simp
qed

theorem SendMultipleTransactions_writes_Index_in_place_witness:
  "snd (SendMultipleTransactions bulkEnv unat [10, 11, 12] bulkStore) 10 = bulkStore 10 \<and>
   snd (SendMultipleTransactions bulkEnv unat [10, 11, 12] bulkStore) 12 =
     bobTx\<lparr>Index := Index (snd (SendMultipleTransactions bulkEnv unat [10, 11, 12] bulkStore) 12)\<rparr>"
proof -
  let ?st = "snd (SendMultipleTransactions bulkEnv unat [10, 11, 12] bulkStore)"
  have t: "txsToSend bulkEnv bulkStore [10, 11, 12] = [11, 12]"
    by (simp add: txsToSend_def bulk_check)
  have b: "bulkStore 12 = bobTx" by (simp add: bulkStore_def)
  from SendMultipleTransactions_writes_Index_in_place [of bulkEnv unat "[10, 11, 12]" bulkStore 10]
  have "?st 10 = bulkStore 10" by (simp add: t)
  moreover
  from SendMultipleTransactions_writes_Index_in_place [of bulkEnv unat "[10, 11, 12]" bulkStore 12]
  have "?st 12 = (bulkStore 12)\<lparr>Index := Index (?st 12)\<rparr>" by (rule conjunct1)
  then have "?st 12 = bobTx\<lparr>Index := Index (?st 12)\<rparr>" unfolding b .
  ultimately show ?thesis by (rule conjI)
qed

text \<open>
  C5, where the code departs from it.  The client sends two transactions: the first
  (reference 10) does not validate, the second (reference 11) does.  The second gets
  \<open>Index\<close> 0, its position among the validated transactions, not its position 1 in the
  client's array, and its hash is returned under key 0.
\<close>

theorem SendMultipleTransactions_Index_shifted:
  "txsToSend bulkEnv bulkStore [10, 11] = [11] \<and>
   fst (SendMultipleTransactions bulkEnv unat [10, 11] bulkStore) =
     Return (\<lparr>NumOfTxs = 1, TxsHashes = [(0, ''h1'')]\<rparr>, None) \<and>
   Index (snd (SendMultipleTransactions bulkEnv unat [10, 11] bulkStore) 11) = 0"
proof (intro conjI)
  show "txsToSend bulkEnv bulkStore [10, 11] = [11]" by (rule bulk_txsToSend)
  have f: "filter (\<lambda>currentTx. checkTransactionFields bulkEnv (bulkStore currentTx) = None) [10, 11] = [11]"
    using bulk_txsToSend(1) by (simp add: txsToSend_def)
  have p: "CallPostTransactions bulkEnv (Address obsA) MultipleTransactionsPath [demoTx] =
      (404, notFound, \<lparr>NumOfTxs = 0, TxsHashes = []\<rparr>)"
    "CallPostTransactions bulkEnv (Address obsB) MultipleTransactionsPath [demoTx] =
      (200, None, \<lparr>NumOfTxs = 1, TxsHashes = [(0, ''h1'')]\<rparr>)"
    by (simp_all add: bulkEnv_def demo_defs)
  have i: "Index demoTx = 0" by (simp add: demoTx_def)
  have g: "GetObservers bulkEnv 0 = Inr [obsA, obsB, obsC]"
    by (simp add: bulkEnv_def demoEnv_def demoGetObservers_def)
  show "fst (SendMultipleTransactions bulkEnv unat [10, 11] bulkStore) =
     Return (\<lparr>NumOfTxs = 1, TxsHashes = [(0, ''h1'')]\<rparr>, None)"
    unfolding SendMultipleTransactions_def f Let_def
    by (simp add: bulk_group g p StatusOK_def i)
  show "Index (snd (SendMultipleTransactions bulkEnv unat [10, 11] bulkStore) 11) = 0"
    unfolding SendMultipleTransactions_def f Let_def
    by (simp add: bulk_group i)
qed

text \<open>
  C10, where the code departs from it.  The one transaction of the input (reference 11)
  validates and \<open>GetObservers\<close> succeeds for its shard, so both conditions hold.
  Observer \<open>b\<close> accepts the post, and its reply reports a hash under key 5 for a group
  of one transaction: \<open>groupOfTxs[5]\<close> is out of range and panics, and the call returns
  neither a nil error nor a result.
\<close>

theorem SendMultipleTransactions_panics_on_foreign_key:
  "txsToSend foreignKeyEnv bulkStore [11] = [11] \<and>
   txsByShardID foreignKeyEnv [11] bulkStore = [(0, [11])] \<and>
   GetObservers foreignKeyEnv 0 = Inr [obsA, obsB, obsC] \<and>
   CallPostTransactions foreignKeyEnv (Address obsB) MultipleTransactionsPath [demoTx] =
     (200, None, \<lparr>NumOfTxs = 1, TxsHashes = [(5, ''h1'')]\<rparr>) \<and>
   fst (SendMultipleTransactions foreignKeyEnv unat [11] bulkStore) = Panic"
proof -
  have c: "checkTransactionFields foreignKeyEnv (bulkStore 11) = None"
    by (simp add: checkTransactionFields_def foreignKeyEnv_def bulkStore_def demoTx_def demo_defs)
  then have t: "txsToSend foreignKeyEnv bulkStore [11] = [11]"
    by (simp add: txsToSend_def)
  have g: "groupTxsByShard foreignKeyEnv [11] bulkStore = ([(0, [11])], bulkStore(11 := demoTx))"
    by (simp add: groupTxsByShard_def foreignKeyEnv_def bulkStore_def demoTx_def demo_defs)
  have o: "GetObservers foreignKeyEnv 0 = Inr [obsA, obsB, obsC]"
    by (simp add: foreignKeyEnv_def demoEnv_def demoGetObservers_def)
  have p: "CallPostTransactions foreignKeyEnv (Address obsA) MultipleTransactionsPath [demoTx] =
      (404, notFound, \<lparr>NumOfTxs = 0, TxsHashes = []\<rparr>)"
    "CallPostTransactions foreignKeyEnv (Address obsB) MultipleTransactionsPath [demoTx] =
      (200, None, \<lparr>NumOfTxs = 1, TxsHashes = [(5, ''h1'')]\<rparr>)"
    by (simp_all add: foreignKeyEnv_def demo_defs)
  have "fst (SendMultipleTransactions foreignKeyEnv unat [11] bulkStore) = Panic"
    unfolding SendMultipleTransactions_def Let_def
    by (simp add: c g o p StatusOK_def)
  moreover have "txsByShardID foreignKeyEnv [11] bulkStore = [(0, [11])]"
    by (simp add: txsByShardID_def t g)
  ultimately show ?thesis using t o p(2) by simp
qed

end
